theory Spec2Isabelle
  imports Complex_Main "HOL-Library.Sublist" "HOL-Library.Multiset"
begin

section \<open>Data model (types/canvas.ts, types/history.ts)\<close>

text \<open>
  JavaScript numbers are modelled as rationals: every number stored in a document
  (positions, sizes, dimensions) is a finite double, hence a rational. Positions are
  computed exactly; where the export divides and multiplies, the rounding of the
  IEEE result is a parameter (see \<open>rounding\<close> below). Timestamps (\<open>Date.now()\<close>)
  are naturals.
\<close>

type_synonym number = rat

text \<open>
  The \<open>File\<close> handle of an uploaded image. \<open>JSON.stringify\<close> of a \<open>File\<close> yields
  \<open>{}\<close>, so a deep copy through JSON holds an empty object in its place.
\<close>

datatype file_ref = File nat | EmptyObject

record ImageDimensions =
  width :: number
  height :: number
  aspectRatio :: number

record BackgroundImage =
  url :: string
  imageFile :: "file_ref option"
  dimensions :: ImageDimensions

record TextShadow =
  shadowColor :: string
  blur :: number
  offsetX :: number
  offsetY :: number

datatype font_weight = WeightName string | WeightNumber number

datatype text_align = AlignLeft | AlignCenter | AlignRight

text \<open>
  \<open>TextLayerProperties\<close>. The fields \<open>id\<close>, \<open>text\<close>, \<open>top\<close>, \<open>width\<close> and \<open>height\<close>
  carry the prefix \<open>layer\<close>; optional fields are options (\<open>None\<close>: the key is absent);
  \<open>shadow\<close> is optional and nullable.
\<close>

record TextLayerProperties =
  layerId :: string
  layerText :: string
  fontFamily :: string
  fontSize :: number
  fontWeight :: font_weight
  color :: string
  opacity :: number
  textAlign :: text_align
  layerTop :: number
  left :: number
  layerWidth :: number
  layerHeight :: number
  angle :: number
  scaleX :: number
  scaleY :: number
  lineHeight :: "number option"
  charSpacing :: "number option"
  shadow :: "TextShadow option option"
  locked :: "bool option"

record CanvasDimensions =
  canvasWidth :: number
  canvasHeight :: number

record CanvasState =
  backgroundImage :: "BackgroundImage option"
  textLayers :: "TextLayerProperties list"
  selectedLayerIds :: "string list"
  canvasDimensions :: CanvasDimensions

record HistoryAction =
  timestamp :: nat
  description :: string
  state :: CanvasState

record HistoryState =
  past :: "HistoryAction list"
  present :: "HistoryAction option"
  future :: "HistoryAction list"
  maxHistorySize :: int

text \<open>The two process-wide stores: the editor (document) store and the history store.\<close>

record App =
  editor :: CanvasState
  history :: HistoryState

text \<open>
  What a call can throw in the code modelled here: a \<open>TypeError\<close> from reading a
  property of \<open>undefined\<close>, and the \<open>QuotaExceededError\<close> of
  \<open>localStorage.setItem\<close>.
\<close>

datatype js_error = TypeError | QuotaExceededError

section \<open>JavaScript array primitives\<close>

text \<open>\<open>xs[i]\<close>: \<open>undefined\<close> (here \<open>None\<close>) outside the array.\<close>

definition js_index :: "'a list \<Rightarrow> int \<Rightarrow> 'a option" where
  "js_index xs i = (if 0 \<le> i \<and> i < int (length xs) then Some (xs ! nat i) else None)"

text \<open>\<open>xs.slice(start)\<close>: a negative start counts from the end, both are clamped.\<close>

definition js_slice_from :: "'a list \<Rightarrow> int \<Rightarrow> 'a list" where
  "js_slice_from xs start =
     (let len = int (length xs);
          k = (if start < 0 then max (len + start) 0 else min start len)
      in drop (nat k) xs)"

text \<open>\<open>xs.slice(start, end)\<close>.\<close>

definition js_slice :: "'a list \<Rightarrow> int \<Rightarrow> int \<Rightarrow> 'a list" where
  "js_slice xs start stop =
     (let len = int (length xs);
          k = (if start < 0 then max (len + start) 0 else min start len);
          final = (if stop < 0 then max (len + stop) 0 else min stop len)
      in take (nat (max (final - k) 0)) (drop (nat k) xs))"

section \<open>The editor store (store/editorSlice.ts)\<close>

definition editor_initialState :: CanvasState where
  "editor_initialState =
     \<lparr> backgroundImage = None, textLayers = [], selectedLayerIds = [],
       canvasDimensions = \<lparr> canvasWidth = 800, canvasHeight = 600 \<rparr> \<rparr>"

text \<open>
  \<open>importState: (state) => set(state)\<close>: the store merges the keys of the given state;
  a \<open>CanvasState\<close> has all four data keys, so each is replaced.
\<close>

definition importState :: "CanvasState \<Rightarrow> CanvasState \<Rightarrow> CanvasState" where
  "importState s e =
     e\<lparr> backgroundImage := backgroundImage s, textLayers := textLayers s,
        selectedLayerIds := selectedLayerIds s, canvasDimensions := canvasDimensions s \<rparr>"

text \<open>
  \<open>Partial<TextLayerProperties>\<close>: each key may be present (\<open>Some\<close>) or not. The
  spread \<open>{ ...layer, ...properties }\<close> keeps a field of \<open>layer\<close> unless \<open>properties\<close>
  has the key.
\<close>

record PartialLayer =
  pLayerId :: "string option"
  pLayerText :: "string option"
  pFontFamily :: "string option"
  pFontSize :: "number option"
  pFontWeight :: "font_weight option"
  pColor :: "string option"
  pOpacity :: "number option"
  pTextAlign :: "text_align option"
  pLayerTop :: "number option"
  pLeft :: "number option"
  pLayerWidth :: "number option"
  pLayerHeight :: "number option"
  pAngle :: "number option"
  pScaleX :: "number option"
  pScaleY :: "number option"
  pLineHeight :: "number option"
  pCharSpacing :: "number option"
  pShadow :: "TextShadow option option"
  pLocked :: "bool option"

definition noProperties :: PartialLayer where
  "noProperties =
     \<lparr> pLayerId = None, pLayerText = None, pFontFamily = None, pFontSize = None,
       pFontWeight = None, pColor = None, pOpacity = None, pTextAlign = None,
       pLayerTop = None, pLeft = None, pLayerWidth = None, pLayerHeight = None,
       pAngle = None, pScaleX = None, pScaleY = None, pLineHeight = None,
       pCharSpacing = None, pShadow = None, pLocked = None \<rparr>"

fun override :: "'a option \<Rightarrow> 'a \<Rightarrow> 'a" where
  "override (Some v) old = v"
| "override None old = old"

fun override_opt :: "'a option \<Rightarrow> 'a option \<Rightarrow> 'a option" where
  "override_opt (Some v) old = Some v"
| "override_opt None old = old"

definition spread :: "TextLayerProperties \<Rightarrow> PartialLayer \<Rightarrow> TextLayerProperties" where
  "spread l p =
     \<lparr> layerId = override (pLayerId p) (layerId l),
       layerText = override (pLayerText p) (layerText l),
       fontFamily = override (pFontFamily p) (fontFamily l),
       fontSize = override (pFontSize p) (fontSize l),
       fontWeight = override (pFontWeight p) (fontWeight l),
       color = override (pColor p) (color l),
       opacity = override (pOpacity p) (opacity l),
       textAlign = override (pTextAlign p) (textAlign l),
       layerTop = override (pLayerTop p) (layerTop l),
       left = override (pLeft p) (left l),
       layerWidth = override (pLayerWidth p) (layerWidth l),
       layerHeight = override (pLayerHeight p) (layerHeight l),
       angle = override (pAngle p) (angle l),
       scaleX = override (pScaleX p) (scaleX l),
       scaleY = override (pScaleY p) (scaleY l),
       lineHeight = override_opt (pLineHeight p) (lineHeight l),
       charSpacing = override_opt (pCharSpacing p) (charSpacing l),
       shadow = override_opt (pShadow p) (shadow l),
       locked = override_opt (pLocked p) (locked l) \<rparr>"

text \<open>\<open>addTextLayer(layer)\<close>; the first argument is the id that \<open>nanoid()\<close> returns.\<close>

definition addTextLayer :: "string \<Rightarrow> PartialLayer \<Rightarrow> CanvasState \<Rightarrow> CanvasState" where
  "addTextLayer newId layer e =
     e\<lparr> textLayers := textLayers e @
          [spread \<lparr> layerId = newId, layerText = ''New Text'', fontFamily = ''Arial'',
                    fontSize = 24, fontWeight = WeightName ''normal'', color = ''#000000'',
                    opacity = 1, textAlign = AlignLeft, layerTop = 100, left = 100,
                    layerWidth = 200, layerHeight = 50, angle = 0, scaleX = 1, scaleY = 1,
                    lineHeight = Some (6 / 5), charSpacing = Some 0, shadow = None,
                    locked = None \<rparr> layer],
        selectedLayerIds := [newId] \<rparr>"

definition updateTextLayer :: "string \<Rightarrow> PartialLayer \<Rightarrow> CanvasState \<Rightarrow> CanvasState" where
  "updateTextLayer i properties e =
     e\<lparr> textLayers := map (\<lambda>layer. if layerId layer = i then spread layer properties else layer)
                           (textLayers e) \<rparr>"

definition selectLayer :: "string \<Rightarrow> CanvasState \<Rightarrow> CanvasState" where
  "selectLayer i e = e\<lparr> selectedLayerIds := [i] \<rparr>"

definition selectMultipleLayers :: "string list \<Rightarrow> CanvasState \<Rightarrow> CanvasState" where
  "selectMultipleLayers ids e = e\<lparr> selectedLayerIds := ids \<rparr>"

section \<open>The history store (store/historySlice.ts)\<close>

definition MAX_HISTORY_SIZE :: int where
  "MAX_HISTORY_SIZE = 20"

definition history_initialState :: HistoryState where
  "history_initialState =
     \<lparr> past = [], present = None, future = [], maxHistorySize = MAX_HISTORY_SIZE \<rparr>"

definition initialApp :: App where
  "initialApp = \<lparr> editor = editor_initialState, history = history_initialState \<rparr>"

text \<open>
  \<open>JSON.parse(JSON.stringify(state))\<close> on the data of a \<open>CanvasState\<close>: every field is
  copied; the functions of the store are dropped (they are not part of the record);
  a \<open>File\<close> comes back as \<open>{}\<close>.
\<close>

definition json_clone_image :: "BackgroundImage \<Rightarrow> BackgroundImage" where
  "json_clone_image b = b\<lparr> imageFile := map_option (\<lambda>_. EmptyObject) (imageFile b) \<rparr>"

definition json_clone :: "CanvasState \<Rightarrow> CanvasState" where
  "json_clone s =
     \<lparr> backgroundImage = map_option json_clone_image (backgroundImage s),
       textLayers = textLayers s,
       selectedLayerIds = selectedLayerIds s,
       canvasDimensions = canvasDimensions s \<rparr>"

text \<open>\<open>pushHistory(description, state)\<close>; the first argument is the value of \<open>Date.now()\<close>.\<close>

definition pushHistory :: "nat \<Rightarrow> string \<Rightarrow> CanvasState \<Rightarrow> HistoryState \<Rightarrow> HistoryState" where
  "pushHistory now descr s h =
     (let newAction = \<lparr> timestamp = now, description = descr, state = json_clone s \<rparr>;
          newPast = (case present h of
                       Some p \<Rightarrow> js_slice_from (past h @ [p]) (- maxHistorySize h + 1)
                     | None \<Rightarrow> past h)
      in h\<lparr> past := newPast, present := Some newAction, future := [] \<rparr>)"

text \<open>
  \<open>undo()\<close>. Reading \<open>previous.state\<close> of an \<open>undefined\<close> entry would throw a
  \<open>TypeError\<close>; that branch is part of the model.
\<close>

definition undo :: "App \<Rightarrow> js_error + App" where
  "undo a =
     (let h = history a in
      if length (past h) = 0 \<or> present h = None then Inr a
      else case present h of
        None \<Rightarrow> Inr a
      | Some cur \<Rightarrow>
         (case js_index (past h) (int (length (past h)) - 1) of
            None \<Rightarrow> Inl TypeError
          | Some previous \<Rightarrow>
              Inr \<lparr> editor = importState (state previous) (editor a),
                    history = h\<lparr> past := js_slice (past h) 0 (int (length (past h)) - 1),
                                 present := Some previous,
                                 future := cur # future h \<rparr> \<rparr>))"

definition redo :: "App \<Rightarrow> js_error + App" where
  "redo a =
     (let h = history a in
      if length (future h) = 0 then Inr a
      else case js_index (future h) 0 of
        None \<Rightarrow> Inl TypeError
      | Some nxt \<Rightarrow>
          Inr \<lparr> editor = importState (state nxt) (editor a),
                history = h\<lparr> past := (case present h of Some cur \<Rightarrow> past h @ [cur] | None \<Rightarrow> past h),
                             present := Some nxt,
                             future := js_slice_from (future h) 1 \<rparr> \<rparr>)"

definition canUndo :: "HistoryState \<Rightarrow> bool" where
  "canUndo h = (length (past h) > 0)"

definition canRedo :: "HistoryState \<Rightarrow> bool" where
  "canRedo h = (length (future h) > 0)"

text \<open>\<open>clearHistory: () => set(initialState)\<close>: all four keys are overwritten.\<close>

definition clearHistory :: "HistoryState \<Rightarrow> HistoryState" where
  "clearHistory h =
     h\<lparr> past := past history_initialState, present := present history_initialState,
        future := future history_initialState,
        maxHistorySize := maxHistorySize history_initialState \<rparr>"

text \<open>
  Sequences of calls on the history store. \<open>step\<close> gives the state the stores hold
  after a call (\<open>Inl\<close>: the call threw before writing any state), and \<open>run\<close> the
  state after a sequence of calls. What a call throws after its state update is the
  matter of \<open>call\<close> below.
\<close>

datatype history_op = PushHistory nat string CanvasState | Undo | Redo | ClearHistory

fun step :: "history_op \<Rightarrow> App \<Rightarrow> js_error + App" where
  "step (PushHistory now descr s) a = Inr (a\<lparr> history := pushHistory now descr s (history a) \<rparr>)"
| "step Undo a = undo a"
| "step Redo a = redo a"
| "step ClearHistory a = Inr (a\<lparr> history := clearHistory (history a) \<rparr>)"

fun run :: "history_op list \<Rightarrow> App \<Rightarrow> js_error + App" where
  "run [] a = Inr a"
| "run (x # xs) a = (case step x a of Inl e \<Rightarrow> Inl e | Inr a' \<Rightarrow> run xs a')"

text \<open>
  The store is created inside the \<open>persist\<close> middleware (name
  \<open>image-text-composer-history\<close>): after every \<open>set\<close> the middleware writes the
  state of the store to \<open>localStorage\<close>, synchronously, and \<open>setItem\<close> throws
  \<open>QuotaExceededError\<close> when the storage refuses the write. The storage is outside
  the repository; it is given by a predicate on the state to be written.
  \<open>call\<close> gives the state after a call together with what the call throws. A call
  that returns before \<open>set\<close> writes nothing.
\<close>

definition persist_write :: "(HistoryState \<Rightarrow> bool) \<Rightarrow> HistoryState \<Rightarrow> js_error option" where
  "persist_write storage_accepts h = (if storage_accepts h then None else Some QuotaExceededError)"

fun call :: "(HistoryState \<Rightarrow> bool) \<Rightarrow> history_op \<Rightarrow> App \<Rightarrow> App \<times> js_error option" where
  "call storage_accepts (PushHistory now descr s) a =
     (let a' = a\<lparr> history := pushHistory now descr s (history a) \<rparr>
      in (a', persist_write storage_accepts (history a')))"
| "call storage_accepts Undo a =
     (if length (past (history a)) = 0 \<or> present (history a) = None then (a, None)
      else case undo a of
             Inl e \<Rightarrow> (a, Some e)
           | Inr a' \<Rightarrow> (a', persist_write storage_accepts (history a')))"
| "call storage_accepts Redo a =
     (if length (future (history a)) = 0 then (a, None)
      else case redo a of
             Inl e \<Rightarrow> (a, Some e)
           | Inr a' \<Rightarrow> (a', persist_write storage_accepts (history a')))"
| "call storage_accepts ClearHistory a =
     (let a' = a\<lparr> history := clearHistory (history a) \<rparr>
      in (a', persist_write storage_accepts (history a')))"

text \<open>A storage that has no room left, and one that takes every write.\<close>

definition full_storage :: "HistoryState \<Rightarrow> bool" where
  "full_storage h = False"

definition roomy_storage :: "HistoryState \<Rightarrow> bool" where
  "roomy_storage h = True"

definition then_do :: "js_error + 'a \<Rightarrow> ('a \<Rightarrow> js_error + 'b) \<Rightarrow> js_error + 'b" where
  "then_do r f = (case r of Inl e \<Rightarrow> Inl e | Inr a \<Rightarrow> f a)"

definition undo_then_redo :: "App \<Rightarrow> js_error + App" where
  "undo_then_redo a = then_do (undo a) redo"

section \<open>Decimal numerals in template literals\<close>

text \<open>The decimal digit of a number below ten.\<close>

definition digit_char :: "nat \<Rightarrow> char" where
  "digit_char d = ''0123456789'' ! d"

fun string_of_nat :: "nat \<Rightarrow> string" where
  "string_of_nat n =
     (if n < 10 then [digit_char n] else string_of_nat (n div 10) @ [digit_char (n mod 10)])"

declare string_of_nat.simps [simp del]

section \<open>Smart spacing and nudging (pages/index.tsx)\<close>

text \<open>
  Both functions are closures of the page component: \<open>selectedLayerIds\<close> and
  \<open>textLayers\<close> are the values the component read from the editor store when it was
  rendered, and are passed here as the first two arguments; the writes go to the store.
\<close>

text \<open>
  \<open>applySmartSpacing\<close>. \<open>Array.prototype.sort\<close> with the comparator
  \<open>a.left - b.left\<close> is a stable ascending sort by \<open>left\<close>, as \<open>sort_key\<close> is.
  \<open>hd\<close> and \<open>last\<close> are read only after the length check. The history push is
  deferred by \<open>setTimeout\<close> and is the separate step \<open>smartSpacingTimer\<close>.
\<close>

definition applySmartSpacing ::
  "string list \<Rightarrow> TextLayerProperties list \<Rightarrow> CanvasState \<Rightarrow> CanvasState" where
  "applySmartSpacing selIds layers e =
     (if length selIds < 2 then e
      else
        let selectedLayers = sort_key left (filter (\<lambda>layer. layerId layer \<in> set selIds) layers)
        in if length selectedLayers < 2 then e
           else
             let leftmostPos = left (hd selectedLayers);
                 rightmostPos = left (last selectedLayers);
                 currentSpread = rightmostPos - leftmostPos;
                 minSpread = max 100 currentSpread;
                 spacing = minSpread / of_nat (length selectedLayers - 1)
             in fold (\<lambda>(layer, index).
                        updateTextLayer (layerId layer)
                          (noProperties\<lparr> pLeft := Some (leftmostPos + spacing * of_nat index) \<rparr>))
                     (zip selectedLayers [0 ..< length selectedLayers]) e)"

definition smartSpacingTimer :: "nat \<Rightarrow> App \<Rightarrow> App" where
  "smartSpacingTimer now a =
     a\<lparr> history := pushHistory now ''Applied smart spacing'' (editor a) (history a) \<rparr>"

text \<open>The position \<open>nudgeSelectedLayers\<close> computes in its \<open>switch\<close>.\<close>

definition nudge_switch :: "TextLayerProperties \<Rightarrow> string \<Rightarrow> number \<Rightarrow> number \<times> number" where
  "nudge_switch layer direction distance =
     (if direction = ''ArrowLeft'' then (left layer - distance, layerTop layer)
      else if direction = ''ArrowRight'' then (left layer + distance, layerTop layer)
      else if direction = ''ArrowUp'' then (left layer, layerTop layer - distance)
      else if direction = ''ArrowDown'' then (left layer, layerTop layer + distance)
      else (left layer, layerTop layer))"

text \<open>The condition of the safeguard, on the position just computed.\<close>

definition safeguard :: "TextLayerProperties \<Rightarrow> number \<times> number \<Rightarrow> number \<Rightarrow> bool" where
  "safeguard layer new distance =
     (let deltaX = \<bar>fst new - left layer\<bar>;
          deltaY = \<bar>snd new - layerTop layer\<bar>
      in deltaX > distance * 2 \<or> deltaY > distance * 2)"

text \<open>The body of the safeguard: the position is reset to the expected movement.\<close>

definition safeguard_reset :: "TextLayerProperties \<Rightarrow> string \<Rightarrow> number \<Rightarrow> number \<times> number" where
  "safeguard_reset layer direction distance =
     (left layer + (if direction = ''ArrowLeft'' then - distance
                    else if direction = ''ArrowRight'' then distance else 0),
      layerTop layer + (if direction = ''ArrowUp'' then - distance
                        else if direction = ''ArrowDown'' then distance else 0))"

text \<open>The body of the \<open>forEach\<close> over the selected ids.\<close>

definition nudge_layer ::
  "TextLayerProperties list \<Rightarrow> string \<Rightarrow> number \<Rightarrow> string \<Rightarrow> CanvasState \<Rightarrow> CanvasState" where
  "nudge_layer layers direction distance i e =
     (case find (\<lambda>l. layerId l = i) layers of
        None \<Rightarrow> e
      | Some layer \<Rightarrow>
          let new = nudge_switch layer direction distance;
              new' = (if safeguard layer new distance
                      then safeguard_reset layer direction distance else new)
          in updateTextLayer i
               (noProperties\<lparr> pLeft := Some (fst new'), pLayerTop := Some (snd new') \<rparr>) e)"

text \<open>\<open>nudgeSelectedLayers(direction, distance)\<close>; \<open>now\<close> is the value of \<open>Date.now()\<close>.\<close>

definition nudgeSelectedLayers ::
  "string list \<Rightarrow> TextLayerProperties list \<Rightarrow> nat \<Rightarrow> string \<Rightarrow> number \<Rightarrow> App \<Rightarrow> App" where
  "nudgeSelectedLayers selIds layers now direction distance a =
     (let e = fold (nudge_layer layers direction distance) selIds (editor a)
      in \<lparr> editor = e,
           history = pushHistory now (''Nudged '' @ string_of_nat (length selIds) @ '' layer(s)'')
                       e (history a) \<rparr>)"

section \<open>PNG export (utils/export.ts, components/Editor/ExportButton.tsx)\<close>

text \<open>
  The drawing surface is an external collaborator: a canvas is given by its size and by
  what its \<open>toDataURL\<close> answers to a request (a data URL, or a thrown value).
\<close>

datatype thrown = Error string | NonError

record ToDataURLOptions =
  format :: string
  quality :: number
  multiplier :: number
  regionLeft :: number
  regionTop :: number
  regionWidth :: number
  regionHeight :: number

record FabricCanvas =
  getWidth :: number
  getHeight :: number
  toDataURL :: "ToDataURLOptions \<Rightarrow> thrown + string"

text \<open>What the export code does to the outside, in order.\<close>

datatype effect =
    ConsoleWarn
  | ConsoleError
  | CallToDataURL ToDataURLOptions
  | DownloadPng string string
  | SetIsExporting bool
  | ShowError string string
  | ShowWarning string string
  | ShowSuccess string string

text \<open>
  Arithmetic on doubles. The export divides and multiplies doubles; each result is the
  exact result rounded to a double, or \<open>Infinity\<close> on overflow. The rounding is a
  parameter: \<open>rnd q\<close> is \<open>Some\<close> of the double the exact result \<open>q\<close> is rounded to,
  and \<open>None\<close> when the result is \<open>Infinity\<close>. All operands are positive where the
  export computes, so neither \<open>NaN\<close> nor \<open>-Infinity\<close> arises.
\<close>

type_synonym rounding = "number \<Rightarrow> number option"

text \<open>\<open>Math.max\<close> and the test \<open>x > limit\<close> on such results (\<open>None\<close> is \<open>Infinity\<close>).\<close>

definition js_max :: "number option \<Rightarrow> number option \<Rightarrow> number option" where
  "js_max x y = (case x of None \<Rightarrow> None
                 | Some a \<Rightarrow> (case y of None \<Rightarrow> None | Some b \<Rightarrow> Some (max a b)))"

definition exceeds :: "number option \<Rightarrow> number \<Rightarrow> bool" where
  "exceeds x limit = (case x of None \<Rightarrow> True | Some v \<Rightarrow> v > limit)"

text \<open>The rounding of results that are doubles themselves.\<close>

definition no_rounding :: rounding where
  "no_rounding q = Some q"

text \<open>
  The \<open>try\<close> block of \<open>exportToPng\<close>: the effects so far and either the thrown value
  or the data URL. \<open>dimensions\<close> is a required field of a background image, so of
  \<open>!backgroundImage || !backgroundImage.dimensions\<close> the first test remains; \<open>!imgWidth\<close>
  holds of the number 0; \<open>!isFinite(multiplier)\<close> holds of \<open>Infinity\<close>.
\<close>

definition exportToPng_try ::
  "rounding \<Rightarrow> FabricCanvas option \<Rightarrow> BackgroundImage option \<Rightarrow>
   effect list \<times> (thrown + string)" where
  "exportToPng_try rnd canvas background =
     (case canvas of
        None \<Rightarrow> ([], Inl (Error ''Canvas is required for export''))
      | Some cv \<Rightarrow>
     (case background of
        None \<Rightarrow> ([], Inl (Error ''Background image with dimensions is required for export''))
      | Some bg \<Rightarrow>
          let imgWidth = width (dimensions bg);
              imgHeight = height (dimensions bg);
              cvWidth = getWidth cv;
              cvHeight = getHeight cv
          in if imgWidth = 0 \<or> imgHeight = 0 \<or> imgWidth \<le> 0 \<or> imgHeight \<le> 0
             then ([], Inl (Error ''Invalid background image dimensions''))
             else if cvWidth = 0 \<or> cvHeight = 0 \<or> cvWidth \<le> 0 \<or> cvHeight \<le> 0
             then ([], Inl (Error ''Invalid canvas dimensions''))
             else
               (case js_max (rnd (imgWidth / cvWidth)) (rnd (imgHeight / cvHeight)) of
                  None \<Rightarrow> ([], Inl (Error ''Invalid export multiplier calculated''))
                | Some m \<Rightarrow>
                  if m \<le> 0 then ([], Inl (Error ''Invalid export multiplier calculated''))
                  else
                    let exportWidth = rnd (cvWidth * m);
                        exportHeight = rnd (cvHeight * m);
                        maxDimension = 8000;
                        warn = (if exceeds exportWidth maxDimension \<or>
                                   exceeds exportHeight maxDimension
                                then [ConsoleWarn] else []);
                        opts = \<lparr> format = ''png'', quality = 1, multiplier = m,
                                 regionLeft = 0, regionTop = 0,
                                 regionWidth = cvWidth, regionHeight = cvHeight \<rparr>
                    in (case toDataURL cv opts of
                          Inl t \<Rightarrow> (warn @ [CallToDataURL opts], Inl t)
                        | Inr dataUrl \<Rightarrow>
                            if dataUrl = [] \<or> \<not> prefix ''data:image/png;base64,'' dataUrl
                            then (warn @ [CallToDataURL opts],
                                  Inl (Error ''Failed to generate valid PNG data URL''))
                            else (warn @ [CallToDataURL opts], Inr dataUrl)))))"

text \<open>
  \<open>exportToPng\<close>: \<open>Inr\<close> is the data URL the promise resolves with, \<open>Inl\<close> the message
  of the \<open>Error\<close> it rejects with.
\<close>

definition exportToPng ::
  "rounding \<Rightarrow> FabricCanvas option \<Rightarrow> BackgroundImage option \<Rightarrow>
   effect list \<times> (string + string)" where
  "exportToPng rnd canvas background =
     (case exportToPng_try rnd canvas background of
        (effs, Inr dataUrl) \<Rightarrow> (effs, Inr dataUrl)
      | (effs, Inl t) \<Rightarrow>
          (effs @ [ConsoleError],
           Inl (case t of Error msg \<Rightarrow> msg | NonError \<Rightarrow> ''Failed to export image'')))"

definition downloadPng :: "string \<Rightarrow> string \<Rightarrow> effect list" where
  "downloadPng dataUrl filename = [DownloadPng dataUrl filename]"

text \<open>\<open>handleExport\<close> of the export button; \<open>now\<close> is the value of \<open>Date.now()\<close>.\<close>

definition handleExport ::
  "rounding \<Rightarrow> FabricCanvas option \<Rightarrow> BackgroundImage option \<Rightarrow> nat \<Rightarrow> effect list" where
  "handleExport rnd canvas background now =
     (if canvas = None \<or> background = None
      then [ShowError ''Cannot export''
              ''Please upload a background image and add some text layers before exporting.'']
      else
        [SetIsExporting True,
         ShowWarning ''Export started''
           ''Generating high-resolution PNG... This may take a moment for large images.''] @
        (case exportToPng rnd canvas background of
           (effs, Inr dataUrl) \<Rightarrow>
             effs @
             downloadPng dataUrl (''image-text-composition-'' @ string_of_nat now @ ''.png'') @
             [ShowSuccess ''Export successful'' ''Your image has been downloaded successfully!'']
         | (effs, Inl msg) \<Rightarrow>
             effs @
             [ConsoleError,
              ShowError ''Export failed''
                (msg @ '' Please try again or try with a smaller image.'')]) @
        [SetIsExporting False])"

text \<open>Reading a trace of effects.\<close>

fun is_export_call :: "effect \<Rightarrow> bool" where
  "is_export_call (CallToDataURL opts) = True"
| "is_export_call other = False"

fun is_download :: "effect \<Rightarrow> bool" where
  "is_download (DownloadPng dataUrl filename) = True"
| "is_download other = False"

fun is_error_toast :: "effect \<Rightarrow> bool" where
  "is_error_toast (ShowError title message) = True"
| "is_error_toast other = False"


section \<open>Sequences of pushes and the invariant of the history store\<close>

text \<open>The invariant of the history store that every operation preserves.\<close>

definition history_inv :: "HistoryState \<Rightarrow> bool" where
  "history_inv h =
     (maxHistorySize h = MAX_HISTORY_SIZE \<and>
      (case present h of
         None \<Rightarrow> past h = [] \<and> future h = []
       | Some cur \<Rightarrow> int (length (past h)) + int (length (future h)) + 1 \<le> MAX_HISTORY_SIZE))"

text \<open>
  A pushHistory call is given by its clock value, its description and the state passed;
  \<open>action_of\<close> is the action that the call stores.
\<close>

definition push_op :: "nat \<times> string \<times> CanvasState \<Rightarrow> history_op" where
  "push_op c = (case c of (now, descr, s) \<Rightarrow> PushHistory now descr s)"

definition action_of :: "nat \<times> string \<times> CanvasState \<Rightarrow> HistoryAction" where
  "action_of c = (case c of (now, descr, s) \<Rightarrow>
                    \<lparr> timestamp = now, description = descr, state = json_clone s \<rparr>)"

section \<open>Moving a layer in an arrow direction\<close>

text \<open>
  Moving a layer by a distance in an arrow direction: the unit vector of the direction
  (screen coordinates, \<open>top\<close> grows downwards) times the distance.
\<close>

definition arrow_vector :: "string \<Rightarrow> number \<times> number" where
  "arrow_vector direction =
     (if direction = ''ArrowLeft'' then (- 1, 0)
      else if direction = ''ArrowRight'' then (1, 0)
      else if direction = ''ArrowUp'' then (0, - 1)
      else if direction = ''ArrowDown'' then (0, 1)
      else (0, 0))"

definition moved_by :: "string \<Rightarrow> number \<Rightarrow> TextLayerProperties \<Rightarrow> TextLayerProperties" where
  "moved_by direction distance l =
     l\<lparr> left := left l + fst (arrow_vector direction) * distance,
        layerTop := layerTop l + snd (arrow_vector direction) * distance \<rparr>"

section \<open>Sample documents, built with the operations of the stores\<close>

definition one_layer :: CanvasState where
  "one_layer = addTextLayer ''a'' noProperties editor_initialState"

definition two_layers :: CanvasState where
  "two_layers = addTextLayer ''b'' noProperties one_layer"

definition two_pushes :: HistoryState where
  "two_pushes = pushHistory 2 ''Added text layer'' two_layers
                  (pushHistory 1 ''Added text layer'' one_layer history_initialState)"

text \<open>Two layers added (each add is followed by its push), no further edit.\<close>

definition synced_app :: App where
  "synced_app = \<lparr> editor = two_layers, history = two_pushes \<rparr>"

text \<open>The same, after the user has clicked on layer \<open>a\<close> (a selection pushes no history).\<close>

definition reselected_app :: App where
  "reselected_app = \<lparr> editor = selectLayer ''a'' two_layers, history = two_pushes \<rparr>"


definition wide_image :: BackgroundImage where
  "wide_image =
     \<lparr> url = ''blob:wide'', imageFile = Some (File 0),
       dimensions = \<lparr> width = 1600, height = 600, aspectRatio = 8 / 3 \<rparr> \<rparr>"

text \<open>One layer added and pushed.\<close>

definition one_layer_app :: App where
  "one_layer_app =
     \<lparr> editor = one_layer,
       history = pushHistory 1 ''Added text layer'' one_layer history_initialState \<rparr>"

text \<open>Three layers at left 50, 200 and 10 (in paint order), all selected.\<close>

definition three_layers :: CanvasState where
  "three_layers =
     selectMultipleLayers [''a'', ''b'', ''c'']
       (addTextLayer ''c'' (noProperties\<lparr> pLeft := Some 10 \<rparr>)
         (addTextLayer ''b'' (noProperties\<lparr> pLeft := Some 200 \<rparr>)
           (addTextLayer ''a'' (noProperties\<lparr> pLeft := Some 50 \<rparr>) editor_initialState)))"

section \<open>Array primitives on the indices the stores use\<close>

lemmas sample_defs = synced_app_def reselected_app_def two_pushes_def two_layers_def
  one_layer_def addTextLayer_def noProperties_def spread_def editor_initialState_def
  selectLayer_def history_initialState_def MAX_HISTORY_SIZE_def

lemmas history_defs = pushHistory_def json_clone_def js_slice_from_def js_slice_def
  js_index_def Let_def undo_then_redo_def then_do_def undo_def redo_def importState_def

lemma js_index_last:
  "xs \<noteq> [] \<Longrightarrow> js_index xs (int (length xs) - 1) = Some (last xs)"
  by (cases xs rule: rev_cases) (simp_all add: js_index_def nth_append)

lemma js_index_first: "js_index (x # xs) 0 = Some x"
  by (simp add: js_index_def)

lemma js_slice_butlast: "js_slice xs 0 (int (length xs) - 1) = butlast xs"
  by (cases xs rule: rev_cases) (simp_all add: js_slice_def Let_def)

lemma js_slice_from_tail: "js_slice_from (x # xs) 1 = xs"
  by (simp add: js_slice_def js_slice_from_def Let_def)

lemma undo_moves_back:
  assumes "past (history a) = xs @ [p]" and "present (history a) = Some cur"
  shows "undo a = Inr \<lparr> editor = importState (state p) (editor a),
                        history = (history a)\<lparr> past := xs, present := Some p,
                                                future := cur # future (history a) \<rparr> \<rparr>"
proof -
  have "js_index (past (history a)) (int (length (past (history a))) - 1) = Some p"
    using js_index_last [of "xs @ [p]"] assms(1) by simp
  moreover have "js_slice (past (history a)) 0 (int (length (past (history a))) - 1) = xs"
    using js_slice_butlast [of "xs @ [p]"] assms(1) by simp
  ultimately show ?thesis
    using assms by (simp add: undo_def Let_def)
qed

lemma redo_moves_forward:
  assumes "future (history a) = nxt # fs"
  shows "redo a = Inr \<lparr> editor = importState (state nxt) (editor a),
                        history = (history a)\<lparr> past := (case present (history a) of
                                                          Some cur \<Rightarrow> past (history a) @ [cur]
                                                        | None \<Rightarrow> past (history a)),
                                                present := Some nxt, future := fs \<rparr> \<rparr>"
  using assms by (simp add: redo_def Let_def js_index_first js_slice_from_tail)

lemma undo_total: "\<exists>a'. undo a = Inr a'"
proof (cases "past (history a) = [] \<or> present (history a) = None")
  case True
  then show ?thesis by (auto simp: undo_def Let_def)
next
  case False
  then obtain xs p cur where "past (history a) = xs @ [p]" "present (history a) = Some cur"
    by (metis not_None_eq rev_exhaust)
  then show ?thesis using undo_moves_back by blast
qed

lemma redo_total: "\<exists>a'. redo a = Inr a'"
proof (cases "future (history a)")
  case Nil
  then show ?thesis by (simp add: redo_def Let_def)
next
  case (Cons nxt fs)
  then show ?thesis using redo_moves_forward by blast
qed

section \<open>Properties of the history store\<close>

text \<open>
  C4. Whatever the state of the history store (in particular after any number of undo
  calls), a pushHistory call leaves the future sequence empty, so canRedo() is false.
\<close>

theorem pushHistory_clears_future:
  "future (pushHistory now descr s h) = [] \<and> \<not> canRedo (pushHistory now descr s h)"
  by (simp add: pushHistory_def canRedo_def Let_def)

text \<open>
  C5 as stated fails: when the storage refuses the write of the persist layer, a
  pushHistory call on the initial store throws (after it has updated the store).
\<close>

theorem persist_write_counterexample:
  "snd (call full_storage (PushHistory 1 ''Added text layer'' one_layer) initialApp) =
     Some QuotaExceededError"
  by (simp add: Let_def persist_write_def full_storage_def)

text \<open>
  C5, amended. undo() with an empty past or a null present, and redo() with an empty
  future, are silent no-ops: they leave both stores (history and document) exactly as
  they were, write nothing to the storage and throw nothing, whatever the storage does.
  Every operation of the history store completes its state update in every state; a
  call throws nothing but the QuotaExceededError of the storage write that follows the
  update, and throws nothing when the storage accepts the write.
\<close>

theorem boundary_noop_and_update_total:
  "(past (history a) = [] \<or> present (history a) = None \<longrightarrow>
      undo a = Inr a \<and> call storage_accepts Undo a = (a, None)) \<and>
   (future (history a) = [] \<longrightarrow>
      redo a = Inr a \<and> call storage_accepts Redo a = (a, None)) \<and>
   (\<exists>a'. step opn a = Inr a' \<and> fst (call storage_accepts opn a) = a' \<and>
      (snd (call storage_accepts opn a) = None \<or>
       snd (call storage_accepts opn a) = Some QuotaExceededError) \<and>
      (storage_accepts (history a') \<longrightarrow> snd (call storage_accepts opn a) = None))"
proof (intro conjI impI)
  assume "past (history a) = [] \<or> present (history a) = None"
  then show "undo a = Inr a" by (auto simp: undo_def Let_def)
next
  assume "past (history a) = [] \<or> present (history a) = None"
  then show "call storage_accepts Undo a = (a, None)" by auto
next
  assume "future (history a) = []"
  then show "redo a = Inr a" by (simp add: redo_def Let_def)
next
  assume "future (history a) = []"
  then show "call storage_accepts Redo a = (a, None)" by simp
next
  show "\<exists>a'. step opn a = Inr a' \<and> fst (call storage_accepts opn a) = a' \<and>
      (snd (call storage_accepts opn a) = None \<or>
       snd (call storage_accepts opn a) = Some QuotaExceededError) \<and>
      (storage_accepts (history a') \<longrightarrow> snd (call storage_accepts opn a) = None)"
  proof (cases opn)
    case (PushHistory now descr s)
    then show ?thesis by (simp add: Let_def persist_write_def)
  next
    case Undo
    from undo_total obtain a' where a': "undo a = Inr a'" by blast
    show ?thesis
    proof (cases "past (history a) = [] \<or> present (history a) = None")
      case True
      then have "undo a = Inr a" by (auto simp: undo_def Let_def)
      with True Undo show ?thesis by auto
    next
      case False
      then have "call storage_accepts Undo a = (a', persist_write storage_accepts (history a'))"
        using a' by auto
      with Undo a' show ?thesis by (simp add: persist_write_def)
    qed
  next
    case Redo
    from redo_total obtain a' where a': "redo a = Inr a'" by blast
    show ?thesis
    proof (cases "future (history a) = []")
      case True
      then have "redo a = Inr a" by (simp add: redo_def Let_def)
      with True Redo show ?thesis by simp
    next
      case False
      then have "call storage_accepts Redo a = (a', persist_write storage_accepts (history a'))"
        using a' by auto
      with Redo a' show ?thesis by (simp add: persist_write_def)
    qed
  next
    case ClearHistory
    then show ?thesis by (simp add: Let_def persist_write_def)
  qed
qed

theorem boundary_noop_and_update_total_witness:
  "past (history initialApp) = [] \<and> future (history initialApp) = [] \<and>
   undo initialApp = Inr initialApp \<and> call roomy_storage Undo initialApp = (initialApp, None) \<and>
   redo initialApp = Inr initialApp \<and> call roomy_storage Redo initialApp = (initialApp, None) \<and>
   (\<exists>a'. step ClearHistory initialApp = Inr a' \<and> roomy_storage (history a') \<and>
      call roomy_storage ClearHistory initialApp = (a', None))"
proof -
  have p: "past (history initialApp) = []" and f: "future (history initialApp) = []"
    by (simp_all add: initialApp_def history_initialState_def)
  from boundary_noop_and_update_total [of initialApp roomy_storage ClearHistory] p f
  show ?thesis by (auto simp: roomy_storage_def prod_eq_iff)
qed

text \<open>
  C6 as stated fails: after two pushes the user selects layer \<open>a\<close> (which pushes no
  history); undo() followed by redo() then leaves the document store with the selection
  of the pushed snapshot (\<open>b\<close>), not the selection it held before the undo (\<open>a\<close>).
\<close>

theorem undo_redo_document_counterexample:
  "past (history reselected_app) \<noteq> [] \<and> present (history reselected_app) \<noteq> None \<and>
   selectedLayerIds (editor reselected_app) = [''a''] \<and>
   map_sum id (selectedLayerIds \<circ> editor) (undo_then_redo reselected_app) = Inr [''b'']"
  by (simp add: sample_defs history_defs)

text \<open>
  C6, amended. When past is non-empty and present is non-null, undo() immediately
  followed by redo() restores the history store (past, present, future) exactly, and
  leaves the document store holding the snapshot of the present action; so the
  document store is as before the undo whenever it held that snapshot before the undo.
\<close>

theorem undo_redo_roundtrip:
  assumes "past (history a) \<noteq> []" and "present (history a) = Some cur"
  shows "\<exists>a1 a2. undo a = Inr a1 \<and> redo a1 = Inr a2 \<and> history a2 = history a \<and>
           editor a2 = state cur \<and> (editor a = state cur \<longrightarrow> a2 = a)"
proof -
  from assms(1) obtain xs p where xs: "past (history a) = xs @ [p]"
    by (metis rev_exhaust)
  let ?a1 = "\<lparr> editor = importState (state p) (editor a),
              history = (history a)\<lparr> past := xs, present := Some p,
                                      future := cur # future (history a) \<rparr> \<rparr>"
  have u: "undo a = Inr ?a1" using undo_moves_back [OF xs assms(2)] .
  have "future (history ?a1) = cur # future (history a)" by simp
  from redo_moves_forward [OF this]
  have r: "redo ?a1 = Inr \<lparr> editor = importState (state cur) (editor ?a1),
                            history = (history a)\<lparr> past := xs @ [p], present := Some cur,
                                                    future := future (history a) \<rparr> \<rparr>"
    by simp
  have h: "(history a)\<lparr> past := xs @ [p], present := Some cur,
                        future := future (history a) \<rparr> = history a"
    using xs assms(2) by simp
  have e: "importState (state cur) (editor ?a1) = state cur"
    by (simp add: importState_def)
  show ?thesis using u r h e by auto
qed

theorem undo_redo_roundtrip_witness:
  "past (history synced_app) \<noteq> [] \<and>
   present (history synced_app) =
     Some \<lparr> timestamp = 2, description = ''Added text layer'', state = two_layers \<rparr> \<and>
   editor synced_app = two_layers \<and>
   (\<exists>a1 a2. undo synced_app = Inr a1 \<and> redo a1 = Inr a2 \<and> a2 = synced_app)"
proof -
  have p: "past (history synced_app) \<noteq> []"
    by (simp add: sample_defs history_defs)
  have c: "present (history synced_app) =
             Some \<lparr> timestamp = 2, description = ''Added text layer'', state = two_layers \<rparr>"
    by (simp add: sample_defs history_defs)
  have e: "editor synced_app = two_layers"
    by (simp add: synced_app_def)
  from undo_redo_roundtrip [OF p c] e p c show ?thesis by auto
qed

section \<open>The bound on the past sequence\<close>

lemma inv_initial: "history_inv history_initialState"
  by (simp add: history_inv_def history_initialState_def)

lemma js_slice_from_neg:
  "0 < n \<Longrightarrow> js_slice_from xs (- int n) = drop (length xs - n) xs"
proof -
  assume "0 < n"
  have "nat (max (int (length xs) - int n) 0) = length xs - n" by linarith
  with \<open>0 < n\<close> show ?thesis by (simp add: js_slice_from_def Let_def)
qed

lemma pushHistory_on_present:
  assumes "maxHistorySize h = MAX_HISTORY_SIZE" and "present h = Some cur"
  shows "pushHistory now descr s h =
         h\<lparr> past := drop (length (past h) - 18) (past h @ [cur]),
            present := Some \<lparr> timestamp = now, description = descr, state = json_clone s \<rparr>,
            future := [] \<rparr>"
proof -
  have "- maxHistorySize h + 1 = - int 19"
    using assms(1) by (simp add: MAX_HISTORY_SIZE_def)
  then have "js_slice_from (past h @ [cur]) (- maxHistorySize h + 1) =
             drop (length (past h @ [cur]) - 19) (past h @ [cur])"
    using js_slice_from_neg [of 19 "past h @ [cur]"] by simp
  moreover have "pushHistory now descr s h =
         h\<lparr> past := js_slice_from (past h @ [cur]) (- maxHistorySize h + 1),
            present := Some \<lparr> timestamp = now, description = descr, state = json_clone s \<rparr>,
            future := [] \<rparr>"
    unfolding pushHistory_def Let_def using assms(2) by simp
  ultimately show ?thesis by simp
qed

lemma past_pushHistory:
  assumes "maxHistorySize h = MAX_HISTORY_SIZE" and "present h = Some cur"
  shows "past (pushHistory now descr s h) = drop (length (past h) - 18) (past h @ [cur])"
  by (simp add: pushHistory_on_present [OF assms])

lemma inv_push: "history_inv h \<Longrightarrow> history_inv (pushHistory now descr s h)"
proof (cases "present h")
  case None
  assume "history_inv h"
  with None show ?thesis by (simp add: history_inv_def pushHistory_def MAX_HISTORY_SIZE_def)
next
  case (Some cur)
  assume "history_inv h"
  then have m: "maxHistorySize h = MAX_HISTORY_SIZE" by (simp add: history_inv_def)
  have "length (past (pushHistory now descr s h)) \<le> 19"
    by (simp add: past_pushHistory [OF m Some])
  moreover have "present (pushHistory now descr s h) \<noteq> None"
    and "future (pushHistory now descr s h) = []"
    and "maxHistorySize (pushHistory now descr s h) = MAX_HISTORY_SIZE"
    using m by (simp_all add: pushHistory_def Let_def)
  ultimately show ?thesis
    by (auto simp: history_inv_def MAX_HISTORY_SIZE_def)
qed

lemma inv_clear: "history_inv (clearHistory h)"
  by (simp add: history_inv_def clearHistory_def history_initialState_def)

lemma inv_undo: "history_inv (history a) \<Longrightarrow> undo a = Inr a' \<Longrightarrow> history_inv (history a')"
proof (cases "past (history a) = [] \<or> present (history a) = None")
  case True
  assume "history_inv (history a)" "undo a = Inr a'"
  with True show ?thesis by (auto simp: undo_def Let_def)
next
  case False
  assume i: "history_inv (history a)" and u: "undo a = Inr a'"
  from False obtain xs p cur where xs: "past (history a) = xs @ [p]" "present (history a) = Some cur"
    by (metis not_None_eq rev_exhaust)
  from undo_moves_back [OF xs] u
  have "history a' = (history a)\<lparr> past := xs, present := Some p,
                                   future := cur # future (history a) \<rparr>"
    by auto
  with i xs show ?thesis
    by (simp add: history_inv_def)
qed

lemma inv_redo: "history_inv (history a) \<Longrightarrow> redo a = Inr a' \<Longrightarrow> history_inv (history a')"
proof (cases "future (history a)")
  case Nil
  assume "history_inv (history a)" "redo a = Inr a'"
  with Nil show ?thesis by (simp add: redo_def Let_def)
next
  case (Cons nxt fs)
  assume i: "history_inv (history a)" and r: "redo a = Inr a'"
  from i Cons obtain cur where cur: "present (history a) = Some cur"
    by (cases "present (history a)") (auto simp: history_inv_def)
  from redo_moves_forward [OF Cons] r cur
  have "history a' = (history a)\<lparr> past := past (history a) @ [cur], present := Some nxt,
                                   future := fs \<rparr>"
    by auto
  with i Cons cur show ?thesis
    by (simp add: history_inv_def)
qed

lemma inv_step:
  assumes "history_inv (history a)" and "step opn a = Inr a'"
  shows "history_inv (history a')"
proof (cases opn)
  case (PushHistory now descr s)
  with assms(2) have "history a' = pushHistory now descr s (history a)" by auto
  with assms(1) show ?thesis by (simp add: inv_push)
next
  case Undo
  with assms(2) have "undo a = Inr a'" by simp
  with assms(1) show ?thesis by (rule inv_undo)
next
  case Redo
  with assms(2) have "redo a = Inr a'" by simp
  with assms(1) show ?thesis by (rule inv_redo)
next
  case ClearHistory
  with assms(2) have "history a' = clearHistory (history a)" by auto
  then show ?thesis by (simp add: inv_clear)
qed

lemma step_total: "\<exists>a'. step opn a = Inr a'"
  by (cases opn) (simp_all add: undo_total redo_total)

lemma inv_run: "history_inv (history a) \<Longrightarrow> \<exists>a'. run ops a = Inr a' \<and> history_inv (history a')"
proof (induction ops arbitrary: a)
  case Nil
  then show ?case by simp
next
  case (Cons x xs)
  from step_total obtain b where b: "step x a = Inr b" by blast
  with Cons.prems have "history_inv (history b)" using inv_step by blast
  from Cons.IH [OF this] b show ?case by simp
qed

lemma inv_bound: "history_inv h \<Longrightarrow> int (length (past h)) + 1 \<le> maxHistorySize h"
  by (auto simp: history_inv_def MAX_HISTORY_SIZE_def split: option.splits)

lemma push_full_drops_oldest:
  assumes "maxHistorySize h = MAX_HISTORY_SIZE" "present h = Some cur"
    "int (length (past h)) + 1 = maxHistorySize h"
  shows "past (pushHistory now descr s h) = tl (past h) @ [cur]"
proof -
  from assms have l: "length (past h) = 19" by (simp add: MAX_HISTORY_SIZE_def)
  then obtain x xs where "past h = x # xs" by (cases "past h") auto
  with l show ?thesis by (simp add: past_pushHistory [OF assms(1,2)])
qed

lemma run_append: "run (xs @ ys) a = then_do (run xs a) (run ys)"
  by (induction xs arbitrary: a) (auto simp: then_do_def split: sum.splits)

lemma pushes_shape:
  assumes "ps \<noteq> []" and "length ps \<le> 20"
  shows "run (map push_op ps) \<lparr> editor = e, history = history_initialState \<rparr> =
         Inr \<lparr> editor = e,
               history = \<lparr> past = map action_of (butlast ps), present = Some (action_of (last ps)),
                           future = [], maxHistorySize = MAX_HISTORY_SIZE \<rparr> \<rparr>"
  using assms
proof (induction ps rule: rev_induct)
  case Nil
  then show ?case by simp
next
  case (snoc c cs)
  show ?case
  proof (cases "cs = []")
    case True
    then show ?thesis
      by (cases c) (simp add: push_op_def action_of_def pushHistory_def history_initialState_def)
  next
    case False
    with snoc have ih: "run (map push_op cs) \<lparr> editor = e, history = history_initialState \<rparr> =
         Inr \<lparr> editor = e,
               history = \<lparr> past = map action_of (butlast cs), present = Some (action_of (last cs)),
                           future = [], maxHistorySize = MAX_HISTORY_SIZE \<rparr> \<rparr>"
      by simp
    have len: "length cs \<le> 19" using snoc.prems by simp
    have bl: "map action_of (butlast cs) @ [action_of (last cs)] = map action_of cs"
      using False by (metis append_butlast_last_id list.simps(8,9) map_append)
    obtain n d s where c: "c = (n, d, s)" by (cases c)
    have po: "push_op c = PushHistory n d s"
      and ao: "action_of c = \<lparr> timestamp = n, description = d, state = json_clone s \<rparr>"
      by (simp_all add: c push_op_def action_of_def)
    let ?h = "\<lparr> past = map action_of (butlast cs), present = Some (action_of (last cs)),
                future = [], maxHistorySize = MAX_HISTORY_SIZE \<rparr>"
    have "run (map push_op (cs @ [c])) \<lparr> editor = e, history = history_initialState \<rparr> =
          Inr \<lparr> editor = e, history = pushHistory n d s ?h \<rparr>"
      by (simp add: run_append ih then_do_def po)
    also have "pushHistory n d s ?h =
          ?h\<lparr> past := drop (length (past ?h) - 18) (past ?h @ [action_of (last cs)]),
              present := Some \<lparr> timestamp = n, description = d, state = json_clone s \<rparr>,
              future := [] \<rparr>"
      by (rule pushHistory_on_present) simp_all
    also have "\<dots> = \<lparr> past = map action_of cs, present = Some (action_of c),
                        future = [], maxHistorySize = MAX_HISTORY_SIZE \<rparr>"
      using len by (simp add: bl ao)
    finally show ?thesis by simp
  qed
qed

text \<open>
  C3. After every sequence of pushHistory, undo, redo and clearHistory calls from the
  initial empty store (so also after maxHistorySize + k pushes), every call has returned
  normally and past.length + 1 \<le> maxHistorySize holds; and when the store is full
  (past.length + 1 = maxHistorySize) a further push drops the oldest past entry and
  appends the old present.
\<close>

theorem past_length_bounded:
  "\<exists>a. run ops initialApp = Inr a \<and>
       int (length (past (history a))) + 1 \<le> maxHistorySize (history a) \<and>
       (\<forall>cur. present (history a) = Some cur \<and>
               int (length (past (history a))) + 1 = maxHistorySize (history a) \<longrightarrow>
               past (pushHistory now descr s (history a)) = tl (past (history a)) @ [cur])"
proof -
  have "history_inv (history initialApp)"
    by (simp add: initialApp_def inv_initial)
  from inv_run [OF this] obtain a where a: "run ops initialApp = Inr a" "history_inv (history a)"
    by blast
  then have "maxHistorySize (history a) = MAX_HISTORY_SIZE" by (simp add: history_inv_def)
  with a show ?thesis using inv_bound push_full_drops_oldest by blast
qed

theorem past_length_bounded_witness:
  "\<exists>a. run (replicate 20 (PushHistory 0 [] editor_initialState)) initialApp = Inr a \<and>
       present (history a) = Some \<lparr> timestamp = 0, description = [], state = editor_initialState \<rparr> \<and>
       int (length (past (history a))) + 1 = maxHistorySize (history a) \<and>
       past (pushHistory 0 [] editor_initialState (history a)) =
         tl (past (history a)) @ [\<lparr> timestamp = 0, description = [], state = editor_initialState \<rparr>]"
proof -
  let ?c = "(0::nat, [] :: string, editor_initialState)"
  let ?act = "\<lparr> timestamp = 0, description = [], state = editor_initialState \<rparr>"
  have ops: "replicate 20 (PushHistory 0 [] editor_initialState) = map push_op (replicate 20 ?c)"
    by (simp add: push_op_def)
  have act: "action_of ?c = ?act"
    by (simp add: action_of_def json_clone_def editor_initialState_def)
  have "run (map push_op (replicate 20 ?c)) \<lparr> editor = editor_initialState, history = history_initialState \<rparr> =
        Inr \<lparr> editor = editor_initialState,
              history = \<lparr> past = map action_of (butlast (replicate 20 ?c)),
                          present = Some (action_of (last (replicate 20 ?c))),
                          future = [], maxHistorySize = MAX_HISTORY_SIZE \<rparr> \<rparr>"
    by (rule pushes_shape) simp_all
  then have r: "run (replicate 20 (PushHistory 0 [] editor_initialState)) initialApp =
        Inr \<lparr> editor = editor_initialState,
              history = \<lparr> past = replicate 19 ?act, present = Some ?act,
                          future = [], maxHistorySize = MAX_HISTORY_SIZE \<rparr> \<rparr>"
    by (simp add: ops act initialApp_def butlast_conv_take)
  from past_length_bounded [of "replicate 20 (PushHistory 0 [] editor_initialState)" 0 "[]" editor_initialState]
  obtain a where a: "run (replicate 20 (PushHistory 0 [] editor_initialState)) initialApp = Inr a"
     "\<forall>cur. present (history a) = Some cur \<and>
               int (length (past (history a))) + 1 = maxHistorySize (history a) \<longrightarrow>
               past (pushHistory 0 [] editor_initialState (history a)) = tl (past (history a)) @ [cur]"
    by blast
  from a(1) r have h: "history a = \<lparr> past = replicate 19 ?act, present = Some ?act,
                          future = [], maxHistorySize = MAX_HISTORY_SIZE \<rparr>"
    by auto
  then have p: "present (history a) = Some ?act"
    and m: "int (length (past (history a))) + 1 = maxHistorySize (history a)"
    by (simp_all add: MAX_HISTORY_SIZE_def)
  with a(2) have "past (pushHistory 0 [] editor_initialState (history a)) = tl (past (history a)) @ [?act]"
    by blast
  with a(1) p m show ?thesis by blast
qed

section \<open>Pushes followed by undos\<close>

lemma undo_all:
  assumes "past (history a) = xs" and "present (history a) = Some cur"
  shows "run (replicate (length xs) Undo) a =
         Inr \<lparr> editor = (if xs = [] then editor a else state (hd xs)),
               history = (history a)\<lparr> past := [], present := Some (hd (xs @ [cur])),
                                       future := tl (xs @ [cur]) @ future (history a) \<rparr> \<rparr>"
  using assms
proof (induction xs arbitrary: a cur rule: rev_induct)
  case Nil
  then show ?case by simp
next
  case (snoc p xs)
  let ?a1 = "\<lparr> editor = importState (state p) (editor a),
              history = (history a)\<lparr> past := xs, present := Some p,
                                      future := cur # future (history a) \<rparr> \<rparr>"
  have u: "undo a = Inr ?a1" using undo_moves_back [OF snoc.prems] .
  have "run (replicate (length xs) Undo) ?a1 =
         Inr \<lparr> editor = (if xs = [] then editor ?a1 else state (hd xs)),
               history = (history ?a1)\<lparr> past := [], present := Some (hd (xs @ [p])),
                                       future := tl (xs @ [p]) @ future (history ?a1) \<rparr> \<rparr>"
    by (rule snoc.IH) simp_all
  then show ?case using u
    by (cases xs) (simp_all add: importState_def)
qed

lemma undo_some:
  assumes "past (history a) = xs @ ys" and "present (history a) = Some cur"
  shows "run (replicate (length ys) Undo) a =
         Inr \<lparr> editor = (if ys = [] then editor a else state (hd ys)),
               history = (history a)\<lparr> past := xs, present := Some (hd (ys @ [cur])),
                                       future := tl (ys @ [cur]) @ future (history a) \<rparr> \<rparr>"
  using assms
proof (induction ys arbitrary: a cur rule: rev_induct)
  case Nil
  then show ?case by simp
next
  case (snoc p ys)
  let ?a1 = "\<lparr> editor = importState (state p) (editor a),
              history = (history a)\<lparr> past := xs @ ys, present := Some p,
                                      future := cur # future (history a) \<rparr> \<rparr>"
  from snoc.prems(1) have "past (history a) = (xs @ ys) @ [p]" by simp
  from undo_moves_back [OF this snoc.prems(2)] have u: "undo a = Inr ?a1" .
  have "run (replicate (length ys) Undo) ?a1 =
         Inr \<lparr> editor = (if ys = [] then editor ?a1 else state (hd ys)),
               history = (history ?a1)\<lparr> past := xs, present := Some (hd (ys @ [p])),
                                       future := tl (ys @ [p]) @ future (history ?a1) \<rparr> \<rparr>"
    by (rule snoc.IH) simp_all
  then show ?case using u
    by (cases ys) (simp_all add: importState_def)
qed

lemma undo_keeps_present:
  "present (history a) \<noteq> None \<Longrightarrow> undo a = Inr a' \<Longrightarrow> present (history a') \<noteq> None"
  by (auto simp: undo_def Let_def split: option.splits if_splits)

lemma undos_keep_present:
  "present (history a) \<noteq> None \<Longrightarrow> \<exists>a'. run (replicate k Undo) a = Inr a' \<and> present (history a') \<noteq> None"
proof (induction k arbitrary: a)
  case 0
  then show ?case by simp
next
  case (Suc k)
  from undo_total obtain b where b: "undo a = Inr b" by blast
  with Suc.prems have "present (history b) \<noteq> None" using undo_keeps_present by blast
  from Suc.IH [OF this] b show ?case by simp
qed

text \<open>
  C1 as stated fails already for N = 1: after one pushHistory call canUndo() is false,
  and one undo() call leaves the pushed action as present (it is a no-op), so the
  store does not return to the empty present.
\<close>

theorem one_push_counterexample:
  "int (length [(1::nat, ''Added text layer'', one_layer)]) < maxHistorySize (history initialApp) \<and>
   map_sum id (canUndo \<circ> history)
     (run (map push_op [(1, ''Added text layer'', one_layer)]) initialApp) = Inr False \<and>
   map_sum id (present \<circ> history)
     (run (map push_op [(1, ''Added text layer'', one_layer)] @ replicate 1 Undo) initialApp) =
     Inr (Some (action_of (1, ''Added text layer'', one_layer)))"
  by (simp add: initialApp_def history_initialState_def MAX_HISTORY_SIZE_def push_op_def
        action_of_def pushHistory_def canUndo_def undo_def Let_def)


text \<open>
  C1, amended. From the initial empty store, after N pushHistory calls with
  1 \<le> N < maxHistorySize, canUndo() is true exactly when N \<ge> 2, and exactly N - 1
  undo() calls bring the store to the first pushed action as present with an empty past:
  after k < N - 1 undo() calls canUndo() is still true, past holds the first N - 1 - k
  pushed actions and present is the next one; after N - 1 calls canUndo() is false and
  undo() is a no-op; and no number of undo() calls brings back the null present.
\<close>

theorem pushes_then_undos:
  assumes "ps \<noteq> []" and "int (length ps) < maxHistorySize (history initialApp)"
  shows "\<exists>a a'. run (map push_op ps) initialApp = Inr a \<and>
           canUndo (history a) = (2 \<le> length ps) \<and>
           run (replicate (length ps - 1) Undo) a = Inr a' \<and>
           past (history a') = [] \<and> present (history a') = Some (action_of (hd ps)) \<and>
           \<not> canUndo (history a') \<and> undo a' = Inr a' \<and>
           (\<forall>k. \<exists>b. run (replicate k Undo) a = Inr b \<and> present (history b) \<noteq> None) \<and>
           (\<forall>k < length ps - 1. \<exists>b. run (replicate k Undo) a = Inr b \<and>
               canUndo (history b) \<and>
               past (history b) = map action_of (take (length ps - 1 - k) ps) \<and>
               present (history b) = Some (action_of (ps ! (length ps - 1 - k))))"
proof -
  from assms(2) have len: "length ps \<le> 20"
    by (simp add: initialApp_def history_initialState_def MAX_HISTORY_SIZE_def)
  let ?a = "\<lparr> editor = editor_initialState,
             history = \<lparr> past = map action_of (butlast ps), present = Some (action_of (last ps)),
                         future = [], maxHistorySize = MAX_HISTORY_SIZE \<rparr> \<rparr>"
  have r: "run (map push_op ps) initialApp = Inr ?a"
    using pushes_shape [OF assms(1) len] by (simp add: initialApp_def)
  have cu: "canUndo (history ?a) = (2 \<le> length ps)"
    by (auto simp: canUndo_def)
  have "run (replicate (length (map action_of (butlast ps))) Undo) ?a =
         Inr \<lparr> editor = (if map action_of (butlast ps) = [] then editor ?a
                         else state (hd (map action_of (butlast ps)))),
               history = (history ?a)\<lparr> past := [],
                  present := Some (hd (map action_of (butlast ps) @ [action_of (last ps)])),
                  future := tl (map action_of (butlast ps) @ [action_of (last ps)]) @ future (history ?a) \<rparr> \<rparr>"
    by (rule undo_all) simp_all
  moreover have "map action_of (butlast ps) @ [action_of (last ps)] = map action_of ps"
    using assms(1) by (metis append_butlast_last_id list.simps(8,9) map_append)
  ultimately obtain a' where a': "run (replicate (length ps - 1) Undo) ?a = Inr a'"
      "past (history a') = []" "present (history a') = Some (hd (map action_of ps))"
    by simp
  have hd: "hd (map action_of ps) = action_of (hd ps)"
    using assms(1) by (simp add: hd_map)
  have nc: "\<not> canUndo (history a')" using a'(2) by (simp add: canUndo_def)
  have un: "undo a' = Inr a'" using a'(2) by (simp add: undo_def Let_def)
  have "present (history ?a) \<noteq> None" by simp
  then have all: "\<forall>k. \<exists>b. run (replicate k Undo) ?a = Inr b \<and> present (history b) \<noteq> None"
    using undos_keep_present by blast
  have pr: "present (history a') = Some (action_of (hd ps))" using a'(3) hd by simp
  have low: "\<forall>k < length ps - 1. \<exists>b. run (replicate k Undo) ?a = Inr b \<and>
               canUndo (history b) \<and>
               past (history b) = map action_of (take (length ps - 1 - k) ps) \<and>
               present (history b) = Some (action_of (ps ! (length ps - 1 - k)))"
  proof (intro allI impI)
    fix k assume k: "k < length ps - 1"
    let ?n = "length ps - 1 - k"
    let ?acts = "map action_of (butlast ps)"
    have n: "0 < ?n" "?n < length ps" "?n \<le> length (butlast ps)" using k by simp_all
    have sp: "past (history ?a) = take ?n ?acts @ drop ?n ?acts" by simp
    have ly: "length (drop ?n ?acts) = k" using k by simp
    have tk: "take ?n ?acts = map action_of (take ?n ps)"
      using n(3) by (simp add: take_map butlast_conv_take min_def)
    have "drop ?n ?acts @ [action_of (last ps)] = drop ?n (?acts @ [action_of (last ps)])"
      using n(3) by simp
    also have "\<dots> = drop ?n (map action_of ps)"
      using assms(1) by (metis append_butlast_last_id list.simps(8,9) map_append)
    finally have "hd (drop ?n ?acts @ [action_of (last ps)]) = map action_of ps ! ?n"
      using n(2) by (simp add: hd_drop_conv_nth)
    then have hdn: "hd (drop ?n ?acts @ [action_of (last ps)]) = action_of (ps ! ?n)"
      using n(2) by simp
    from undo_some [OF sp, of "action_of (last ps)"]
    obtain b where b: "run (replicate (length (drop ?n ?acts)) Undo) ?a = Inr b"
      "past (history b) = take ?n ?acts"
      "present (history b) = Some (hd (drop ?n ?acts @ [action_of (last ps)]))"
      by simp
    from b(1) have b1: "run (replicate k Undo) ?a = Inr b" by (simp only: ly)
    have b2: "past (history b) = map action_of (take ?n ps)" using b(2) tk by simp
    have "take ?n ps \<noteq> []" using n(1,2) by auto
    with b2 have b3: "canUndo (history b)" by (simp add: canUndo_def)
    have b4: "present (history b) = Some (action_of (ps ! ?n))" using b(3) hdn by simp
    show "\<exists>b. run (replicate k Undo) ?a = Inr b \<and> canUndo (history b) \<and>
               past (history b) = map action_of (take ?n ps) \<and>
               present (history b) = Some (action_of (ps ! ?n))"
      using b1 b2 b3 b4 by blast
  qed
  show ?thesis
    by (rule exI [of _ ?a], rule exI [of _ a'], intro conjI)
       (fact r cu a'(1) a'(2) pr nc un all low)+
qed

theorem pushes_then_undos_witness:
  "[(1::nat, ''Added text layer'', one_layer), (2, ''Added text layer'', two_layers)] \<noteq> [] \<and>
   int (length [(1::nat, ''Added text layer'', one_layer), (2, ''Added text layer'', two_layers)])
     < maxHistorySize (history initialApp) \<and>
   (\<exists>a a'. run [PushHistory 1 ''Added text layer'' one_layer,
                  PushHistory 2 ''Added text layer'' two_layers] initialApp = Inr a \<and>
      canUndo (history a) \<and> run [Undo] a = Inr a' \<and> past (history a') = [] \<and>
      present (history a') =
        Some \<lparr> timestamp = 1, description = ''Added text layer'', state = json_clone one_layer \<rparr>)"
proof -
  let ?ps = "[(1::nat, ''Added text layer'', one_layer), (2, ''Added text layer'', two_layers)]"
  have n: "?ps \<noteq> []" by simp
  have l: "int (length ?ps) < maxHistorySize (history initialApp)"
    by (simp add: initialApp_def history_initialState_def MAX_HISTORY_SIZE_def)
  from pushes_then_undos [OF n l] n l show ?thesis
    by (simp add: push_op_def action_of_def) blast
qed

section \<open>Export: preconditions and the size requested\<close>

lemma exportToPng_no_canvas:
  "exportToPng rnd None background = ([ConsoleError], Inl ''Canvas is required for export'')"
  by (simp add: exportToPng_def exportToPng_try_def)

lemma exportToPng_no_background:
  "exportToPng rnd (Some cv) None =
     ([ConsoleError], Inl ''Background image with dimensions is required for export'')"
  by (simp add: exportToPng_def exportToPng_try_def)

text \<open>
  C8. When the canvas or the background image is missing, handleExport only shows the
  error notification: it starts no export, requests no image from the drawing surface
  and triggers no download; and exportToPng itself, called with a missing canvas or
  background image, rejects with an error before asking the surface for anything.
\<close>

theorem export_precondition:
  "canvas = None \<or> background = None \<longrightarrow>
     handleExport rnd canvas background now =
       [ShowError ''Cannot export''
          ''Please upload a background image and add some text layers before exporting.''] \<and>
     list_ex is_error_toast (handleExport rnd canvas background now) \<and>
     \<not> list_ex is_export_call (handleExport rnd canvas background now) \<and>
     \<not> list_ex is_download (handleExport rnd canvas background now) \<and>
     (\<exists>msg. snd (exportToPng rnd canvas background) = Inl msg) \<and>
     \<not> list_ex is_export_call (fst (exportToPng rnd canvas background))"
proof
  assume a: "canvas = None \<or> background = None"
  then have h: "handleExport rnd canvas background now =
       [ShowError ''Cannot export''
          ''Please upload a background image and add some text layers before exporting.'']"
    by (auto simp: handleExport_def)
  have e: "(\<exists>msg. snd (exportToPng rnd canvas background) = Inl msg) \<and>
     \<not> list_ex is_export_call (fst (exportToPng rnd canvas background))"
  proof (cases canvas)
    case None
    then show ?thesis by (simp add: exportToPng_no_canvas)
  next
    case (Some cv)
    with a have "background = None" by simp
    with Some show ?thesis by (simp add: exportToPng_no_background)
  qed
  show "handleExport rnd canvas background now =
       [ShowError ''Cannot export''
          ''Please upload a background image and add some text layers before exporting.''] \<and>
     list_ex is_error_toast (handleExport rnd canvas background now) \<and>
     \<not> list_ex is_export_call (handleExport rnd canvas background now) \<and>
     \<not> list_ex is_download (handleExport rnd canvas background now) \<and>
     (\<exists>msg. snd (exportToPng rnd canvas background) = Inl msg) \<and>
     \<not> list_ex is_export_call (fst (exportToPng rnd canvas background))"
    using e by (simp add: h)
qed

theorem export_precondition_witness:
  "handleExport no_rounding None (Some wide_image) 1700000000000 =
       [ShowError ''Cannot export''
          ''Please upload a background image and add some text layers before exporting.''] \<and>
   \<not> list_ex is_export_call (handleExport no_rounding None (Some wide_image) 1700000000000) \<and>
   \<not> list_ex is_download (handleExport no_rounding None (Some wide_image) 1700000000000) \<and>
   exportToPng no_rounding None (Some wide_image) =
     ([ConsoleError], Inl ''Canvas is required for export'')"
  using export_precondition [of None "Some wide_image" no_rounding 1700000000000]
  by (simp add: exportToPng_no_canvas)



section \<open>What a history snapshot holds\<close>

lemma nudge_layer_selection:
  "selectedLayerIds (nudge_layer layers direction distance i e) = selectedLayerIds e"
  by (simp add: nudge_layer_def updateTextLayer_def Let_def split: option.splits)

lemma fold_nudge_selection:
  "selectedLayerIds (fold (nudge_layer layers direction distance) ids e) = selectedLayerIds e"
  by (induction ids arbitrary: e) (simp_all add: nudge_layer_selection)

text \<open>
  C2 as stated fails: the snapshot that nudgeSelectedLayers pushes holds the current
  selection, and two documents that differ only in their selection are stored as
  different snapshots.
\<close>

theorem snapshot_holds_selection_counterexample:
  "selectedLayerIds (editor one_layer_app) = [''a''] \<and>
   map_option (selectedLayerIds \<circ> state)
     (present (history (nudgeSelectedLayers [''a''] (textLayers one_layer) 2 ''ArrowUp'' 5
                          one_layer_app))) = Some [''a''] \<and>
   state (action_of (1, ''x'', one_layer)) \<noteq>
   state (action_of (1, ''x'', selectMultipleLayers [] one_layer))"
  by (simp add: one_layer_app_def nudgeSelectedLayers_def nudge_layer_selection pushHistory_def
        json_clone_def one_layer_def addTextLayer_def action_of_def selectMultipleLayers_def Let_def)

lemma importState_whole: "importState s e = s"
  by (simp add: importState_def)

lemma two_pushes_undo_redo:
  assumes "maxHistorySize (history a) = MAX_HISTORY_SIZE"
  shows "\<exists>a1 a2. run [PushHistory n1 d1 s1, PushHistory n2 d2 s2, Undo] a = Inr a1 \<and>
           editor a1 = json_clone s1 \<and> redo a1 = Inr a2 \<and> editor a2 = json_clone s2"
proof -
  let ?A1 = "\<lparr> timestamp = n1, description = d1, state = json_clone s1 \<rparr>"
  let ?A2 = "\<lparr> timestamp = n2, description = d2, state = json_clone s2 \<rparr>"
  let ?h1 = "pushHistory n1 d1 s1 (history a)"
  have m1: "maxHistorySize ?h1 = MAX_HISTORY_SIZE" and p1: "present ?h1 = Some ?A1"
    using assms by (simp_all add: pushHistory_def Let_def)
  let ?xs = "drop (length (past ?h1) - 18) (past ?h1)"
  have h2: "pushHistory n2 d2 s2 ?h1 =
            ?h1\<lparr> past := ?xs @ [?A1], present := Some ?A2, future := [] \<rparr>"
    using pushHistory_on_present [OF m1 p1, of n2 d2 s2] by simp
  let ?b = "a\<lparr> history := ?h1\<lparr> past := ?xs @ [?A1], present := Some ?A2, future := [] \<rparr> \<rparr>"
  have r2: "run [PushHistory n1 d1 s1, PushHistory n2 d2 s2] a = Inr ?b"
    by (simp add: h2)
  let ?a1 = "\<lparr> editor = importState (state ?A1) (editor ?b),
              history = (history ?b)\<lparr> past := ?xs, present := Some ?A1,
                                       future := ?A2 # future (history ?b) \<rparr> \<rparr>"
  have u: "undo ?b = Inr ?a1"
    by (rule undo_moves_back) simp_all
  have r3: "run [PushHistory n1 d1 s1, PushHistory n2 d2 s2, Undo] a = Inr ?a1"
    using u by (simp add: h2)
  have e1: "editor ?a1 = json_clone s1" by (simp add: importState_whole)
  have "future (history ?a1) = ?A2 # []" by simp
  from redo_moves_forward [OF this]
  obtain a2 where a2: "redo ?a1 = Inr a2" "editor a2 = importState (state ?A2) (editor ?a1)"
    by simp
  from a2(2) have e2: "editor a2 = json_clone s2" by (simp add: importState_whole)
  show ?thesis
    by (rule exI [of _ ?a1], rule exI [of _ a2], intro conjI) (fact r3 e1 a2(1) e2)+
qed

text \<open>
  C2, amended. Every snapshot stored by pushHistory is the JSON copy of the whole state
  passed in: the background image (its url and dimensions), the ordered text-layer list,
  the canvas dimensions and also the current selection; the snapshot pushed by
  nudgeSelectedLayers holds the selection of the document store; and undo and redo
  apply the stored snapshot to the document store whole, selection included: after two
  pushes an undo leaves the document store with the copy and the selection of the first
  state pushed, and a redo with those of the second.
\<close>

theorem snapshot_is_full_copy:
  "present (pushHistory now descr s h) =
     Some \<lparr> timestamp = now, description = descr, state = json_clone s \<rparr> \<and>
   textLayers (json_clone s) = textLayers s \<and>
   selectedLayerIds (json_clone s) = selectedLayerIds s \<and>
   canvasDimensions (json_clone s) = canvasDimensions s \<and>
   map_option url (backgroundImage (json_clone s)) = map_option url (backgroundImage s) \<and>
   map_option dimensions (backgroundImage (json_clone s)) =
     map_option dimensions (backgroundImage s) \<and>
   map_option (selectedLayerIds \<circ> state)
     (present (history (nudgeSelectedLayers selIds layers now direction distance a))) =
     Some (selectedLayerIds (editor a)) \<and>
   (maxHistorySize (history b) = MAX_HISTORY_SIZE \<longrightarrow>
      (\<exists>b1 b2. run [PushHistory n1 d1 s1, PushHistory n2 d2 s2, Undo] b = Inr b1 \<and>
         editor b1 = json_clone s1 \<and> selectedLayerIds (editor b1) = selectedLayerIds s1 \<and>
         redo b1 = Inr b2 \<and>
         editor b2 = json_clone s2 \<and> selectedLayerIds (editor b2) = selectedLayerIds s2))"
proof -
  have copy: "present (pushHistory now descr s h) =
     Some \<lparr> timestamp = now, description = descr, state = json_clone s \<rparr> \<and>
   textLayers (json_clone s) = textLayers s \<and>
   selectedLayerIds (json_clone s) = selectedLayerIds s \<and>
   canvasDimensions (json_clone s) = canvasDimensions s \<and>
   map_option url (backgroundImage (json_clone s)) = map_option url (backgroundImage s) \<and>
   map_option dimensions (backgroundImage (json_clone s)) =
     map_option dimensions (backgroundImage s) \<and>
   map_option (selectedLayerIds \<circ> state)
     (present (history (nudgeSelectedLayers selIds layers now direction distance a))) =
     Some (selectedLayerIds (editor a))"
    by (simp add: pushHistory_def json_clone_def json_clone_image_def Let_def
          nudgeSelectedLayers_def fold_nudge_selection option.map_comp comp_def)
  have sel: "selectedLayerIds (json_clone x) = selectedLayerIds x" for x
    by (simp add: json_clone_def)
  have restore: "\<exists>b1 b2. run [PushHistory n1 d1 s1, PushHistory n2 d2 s2, Undo] b = Inr b1 \<and>
         editor b1 = json_clone s1 \<and> selectedLayerIds (editor b1) = selectedLayerIds s1 \<and>
         redo b1 = Inr b2 \<and>
         editor b2 = json_clone s2 \<and> selectedLayerIds (editor b2) = selectedLayerIds s2"
    if "maxHistorySize (history b) = MAX_HISTORY_SIZE"
  proof -
    from two_pushes_undo_redo [OF that, of n1 d1 s1 n2 d2 s2]
    obtain b1 b2 where
      "run [PushHistory n1 d1 s1, PushHistory n2 d2 s2, Undo] b = Inr b1"
      "editor b1 = json_clone s1" "redo b1 = Inr b2" "editor b2 = json_clone s2"
      by blast
    then show ?thesis using sel by auto
  qed
  from copy restore show ?thesis by blast
qed

theorem snapshot_is_full_copy_witness:
  "maxHistorySize (history initialApp) = MAX_HISTORY_SIZE \<and>
   selectedLayerIds one_layer = [''a''] \<and> selectedLayerIds two_layers = [''b''] \<and>
   (\<exists>b1 b2. run [PushHistory 1 ''Added text layer'' one_layer,
                   PushHistory 2 ''Added text layer'' two_layers, Undo] initialApp = Inr b1 \<and>
      selectedLayerIds (editor b1) = [''a''] \<and> redo b1 = Inr b2 \<and>
      selectedLayerIds (editor b2) = [''b''])"
proof -
  have m: "maxHistorySize (history initialApp) = MAX_HISTORY_SIZE"
    by (simp add: initialApp_def history_initialState_def)
  have s1: "selectedLayerIds one_layer = [''a'']" and s2: "selectedLayerIds two_layers = [''b'']"
    by (simp_all add: two_layers_def one_layer_def addTextLayer_def)
  from snapshot_is_full_copy [of _ _ _ _ _ _ _ _ _ initialApp 1 "''Added text layer''" one_layer
      2 "''Added text layer''" two_layers] m
  have "\<exists>b1 b2. run [PushHistory 1 ''Added text layer'' one_layer,
                   PushHistory 2 ''Added text layer'' two_layers, Undo] initialApp = Inr b1 \<and>
      selectedLayerIds (editor b1) = selectedLayerIds one_layer \<and> redo b1 = Inr b2 \<and>
      selectedLayerIds (editor b2) = selectedLayerIds two_layers"
    by blast
  with m s1 s2 show ?thesis by simp
qed

section \<open>Nudging\<close>

lemma spread_left_top:
  "spread l (noProperties\<lparr> pLeft := Some x, pLayerTop := Some y \<rparr>) = l\<lparr> left := x, layerTop := y \<rparr>"
  by (cases l) (simp add: spread_def noProperties_def)

lemma spread_left: "spread l (noProperties\<lparr> pLeft := Some x \<rparr>) = l\<lparr> left := x \<rparr>"
  by (cases l) (simp add: spread_def noProperties_def)

lemma find_SomeD: "find P xs = Some x \<Longrightarrow> x \<in> set xs \<and> P x"
  by (induction xs) (auto split: if_splits)

lemma nudge_position:
  "(if safeguard l (nudge_switch l direction distance) distance
    then safeguard_reset l direction distance else nudge_switch l direction distance) =
   (left l + fst (arrow_vector direction) * distance,
    layerTop l + snd (arrow_vector direction) * distance)"
  by (simp add: nudge_switch_def safeguard_reset_def arrow_vector_def)

lemma safeguard_unreachable:
  "0 \<le> distance \<Longrightarrow> \<not> safeguard l (nudge_switch l direction distance) distance"
  by (simp add: safeguard_def nudge_switch_def Let_def)

text \<open>
  For a negative number in place of the distance the condition of the safeguard does
  hold in an arrow direction; by \<open>nudge_position\<close> the reset then writes the position
  the \<open>switch\<close> had computed.
\<close>

lemma safeguard_negative_distance:
  assumes "distance < 0"
    and "direction \<in> {''ArrowLeft'', ''ArrowRight'', ''ArrowUp'', ''ArrowDown''}"
  shows "safeguard l (nudge_switch l direction distance) distance"
  using assms by (auto simp: safeguard_def nudge_switch_def Let_def)

lemma nudge_layer_found:
  assumes "find (\<lambda>l. layerId l = i) layers = Some layer"
  shows "textLayers (nudge_layer layers direction distance i e) =
         map (\<lambda>l. if layerId l = i
                   then l\<lparr> left := left layer + fst (arrow_vector direction) * distance,
                           layerTop := layerTop layer + snd (arrow_vector direction) * distance \<rparr>
                   else l) (textLayers e)"
  using assms
  by (simp add: nudge_layer_def Let_def nudge_position updateTextLayer_def spread_left_top)

lemma nudge_layer_step:
  assumes d: "distinct (map layerId layers)"
    and e: "textLayers e =
            map (\<lambda>l. if layerId l \<in> S then moved_by direction distance l else l) layers"
  shows "textLayers (nudge_layer layers direction distance i e) =
         map (\<lambda>l. if layerId l \<in> insert i S then moved_by direction distance l else l) layers"
proof (cases "find (\<lambda>l. layerId l = i) layers")
  case None
  then have "\<forall>l \<in> set layers. layerId l \<noteq> i" by (auto simp: find_None_iff)
  then have "map (\<lambda>l. if layerId l \<in> insert i S then moved_by direction distance l else l) layers =
             map (\<lambda>l. if layerId l \<in> S then moved_by direction distance l else l) layers"
    by (intro map_cong) auto
  with None e show ?thesis by (simp add: nudge_layer_def)
next
  case (Some layer)
  then have lay: "layer \<in> set layers" "layerId layer = i"
    using find_SomeD by fastforce+
  from d have inj: "inj_on layerId (set layers)" by (simp add: distinct_map)
  have "map (\<lambda>l. if layerId l = i
                  then l\<lparr> left := left layer + fst (arrow_vector direction) * distance,
                          layerTop := layerTop layer + snd (arrow_vector direction) * distance \<rparr>
                  else l)
          (map (\<lambda>l. if layerId l \<in> S then moved_by direction distance l else l) layers) =
        map (\<lambda>l. if layerId l \<in> insert i S then moved_by direction distance l else l) layers"
    unfolding map_map
  proof (intro map_cong refl)
    fix l assume l: "l \<in> set layers"
    show "((\<lambda>l. if layerId l = i
                then l\<lparr> left := left layer + fst (arrow_vector direction) * distance,
                        layerTop := layerTop layer + snd (arrow_vector direction) * distance \<rparr>
                else l) \<circ>
           (\<lambda>l. if layerId l \<in> S then moved_by direction distance l else l)) l =
          (if layerId l \<in> insert i S then moved_by direction distance l else l)"
    proof (cases "layerId l = i")
      case True
      with l lay inj have "l = layer" by (auto dest: inj_onD)
      with True show ?thesis by (simp add: moved_by_def)
    next
      case False
      then show ?thesis by (simp add: moved_by_def)
    qed
  qed
  with nudge_layer_found [OF Some] e show ?thesis by simp
qed

lemma fold_nudge_layers:
  assumes "distinct (map layerId layers)"
    and "textLayers e =
         map (\<lambda>l. if layerId l \<in> S then moved_by direction distance l else l) layers"
  shows "textLayers (fold (nudge_layer layers direction distance) ids e) =
         map (\<lambda>l. if layerId l \<in> S \<union> set ids then moved_by direction distance l else l) layers"
  using assms(2)
proof (induction ids arbitrary: e S)
  case Nil
  then show ?case by simp
next
  case (Cons i ids)
  from nudge_layer_step [OF assms(1) Cons.prems]
  have "textLayers (fold (nudge_layer layers direction distance) ids
                      (nudge_layer layers direction distance i e)) =
        map (\<lambda>l. if layerId l \<in> insert i S \<union> set ids then moved_by direction distance l else l)
          layers"
    by (rule Cons.IH)
  then show ?case by simp
qed

text \<open>
  C10. nudgeSelectedLayers, called by the page on its current document (unique layer
  ids) with a distance that is not negative (the call sites pass 1, 5 and 10): every
  layer of the list whose id is selected is moved by exactly the distance in the arrow
  direction, its other coordinate and every other layer are unchanged, and the
  condition of the safeguard is false for every layer, so its branch never runs.
\<close>

theorem nudge_moves_exactly:
  assumes "distinct (map layerId (textLayers (editor a)))" and "0 \<le> distance"
  shows "textLayers (editor (nudgeSelectedLayers (selectedLayerIds (editor a))
                              (textLayers (editor a)) now direction distance a)) =
         map (\<lambda>l. if layerId l \<in> set (selectedLayerIds (editor a))
                   then moved_by direction distance l else l)
           (textLayers (editor a)) \<and>
         (\<forall>l. \<not> safeguard l (nudge_switch l direction distance) distance)"
proof -
  have "textLayers (editor a) =
        map (\<lambda>l. if layerId l \<in> {} then moved_by direction distance l else l)
          (textLayers (editor a))"
    by simp
  from fold_nudge_layers [OF assms(1) this]
  have "textLayers (fold (nudge_layer (textLayers (editor a)) direction distance)
                      (selectedLayerIds (editor a)) (editor a)) =
        map (\<lambda>l. if layerId l \<in> set (selectedLayerIds (editor a))
                  then moved_by direction distance l else l)
          (textLayers (editor a))"
    by simp
  then show ?thesis
    using assms(2) by (simp add: nudgeSelectedLayers_def Let_def safeguard_unreachable)
qed

theorem nudge_moves_exactly_witness:
  "distinct (map layerId (textLayers (editor one_layer_app))) \<and> (0::rat) \<le> 5 \<and>
   map (\<lambda>l. (layerId l, left l, layerTop l))
     (textLayers (editor (nudgeSelectedLayers [''a''] (textLayers one_layer) 2 ''ArrowUp'' 5
                            one_layer_app))) = [(''a'', 100, 95)] \<and>
   \<not> safeguard (hd (textLayers one_layer)) (nudge_switch (hd (textLayers one_layer)) ''ArrowUp'' 5) 5"
proof -
  have d: "distinct (map layerId (textLayers (editor one_layer_app)))"
    by (simp add: one_layer_app_def one_layer_def addTextLayer_def editor_initialState_def)
  have s: "selectedLayerIds (editor one_layer_app) = [''a'']"
    and t: "textLayers (editor one_layer_app) = textLayers one_layer"
    by (simp_all add: one_layer_app_def one_layer_def addTextLayer_def)
  from nudge_moves_exactly [OF d, of 5 2 "''ArrowUp''"] d show ?thesis
    by (simp add: s t)
       (simp add: one_layer_def addTextLayer_def editor_initialState_def spread_def
          noProperties_def moved_by_def arrow_vector_def)
qed

section \<open>Smart spacing\<close>

lemma updateTextLayer_left:
  "textLayers (updateTextLayer i (noProperties\<lparr> pLeft := Some x \<rparr>) e) =
   map (\<lambda>l. if layerId l = i then l\<lparr> left := x \<rparr> else l) (textLayers e)"
  by (simp add: updateTextLayer_def spread_left)

lemma three_selected_ids:
  assumes "{i0, i1, i2} \<subseteq> set ids" and "i0 \<noteq> i1" "i0 \<noteq> i2" "i1 \<noteq> i2"
  shows "\<not> length ids < 2"
proof -
  have "card {i0, i1, i2} = 3" using assms(2-4) by simp
  moreover have "card {i0, i1, i2} \<le> card (set ids)"
    using assms(1) by (intro card_mono) auto
  moreover have "card (set ids) \<le> length ids" by (rule card_length)
  ultimately show ?thesis by linarith
qed


lemma applySmartSpacing_three:
  assumes "\<not> length selIds < 2"
    and "sort_key left (filter (\<lambda>layer. layerId layer \<in> set selIds) layers) = [l0, l1, l2]"
  shows "applySmartSpacing selIds layers e =
         updateTextLayer (layerId l2)
           (noProperties\<lparr> pLeft := Some (left l0 + max 100 (left l2 - left l0) / 2 * 2) \<rparr>)
           (updateTextLayer (layerId l1)
              (noProperties\<lparr> pLeft := Some (left l0 + max 100 (left l2 - left l0) / 2 * 1) \<rparr>)
              (updateTextLayer (layerId l0)
                 (noProperties\<lparr> pLeft := Some (left l0 + max 100 (left l2 - left l0) / 2 * 0) \<rparr>) e))"
proof -
  have z: "zip [l0, l1, l2] [0 ..< length [l0, l1, l2]] = [(l0, 0), (l1, 1), (l2, 2)]"
    by (simp add: upt_rec)
  show ?thesis
    unfolding applySmartSpacing_def Let_def assms(2) z
    using assms(1) by simp
qed


lemma smart_spacing_three:
  assumes d: "distinct (map layerId (textLayers e))"
    and s: "map left (sort_key left (filter (\<lambda>l. layerId l \<in> set (selectedLayerIds e))
                                       (textLayers e))) = [10, 50, 200]"
  shows "textLayers (applySmartSpacing (selectedLayerIds e) (textLayers e) e) =
         map (\<lambda>l. if layerId l \<in> set (selectedLayerIds e)
                   then l\<lparr> left := 10 + (max 100 (200 - 10) / 2) *
                                      (if left l = 10 then 0 else if left l = 50 then 1 else 2) \<rparr>
                   else l)
           (textLayers e)"
proof -
  let ?P = "\<lambda>l. layerId l \<in> set (selectedLayerIds e)"
  let ?sel = "filter ?P (textLayers e)"
  let ?h = "\<lambda>l. if ?P l
                 then l\<lparr> left := 10 + (max 100 (200 - 10) / 2) *
                                    (if left l = 10 then 0 else if left l = 50 then 1 else 2) \<rparr>
                 else l"
  from s obtain l0 l1 l2 where srt: "sort_key left ?sel = [l0, l1, l2]"
    and lf: "left l0 = 10" "left l1 = 50" "left l2 = 200"
    by (auto simp: map_eq_Cons_conv)
  have "set (sort_key left ?sel) = {l0, l1, l2}" by (simp add: srt)
  then have setsel: "set ?sel = {l0, l1, l2}" by simp
  then have mem: "l0 \<in> set (textLayers e)" "l1 \<in> set (textLayers e)" "l2 \<in> set (textLayers e)"
    and sel: "?P l0" "?P l1" "?P l2"
    by auto
  from d have inj: "inj_on layerId (set (textLayers e))" by (simp add: distinct_map)
  have ne: "l0 \<noteq> l1" "l0 \<noteq> l2" "l1 \<noteq> l2" using lf by auto
  have idne: "layerId l0 \<noteq> layerId l1" "layerId l0 \<noteq> layerId l2" "layerId l1 \<noteq> layerId l2"
    using inj mem ne by (auto dest: inj_onD)
  have len: "\<not> length (selectedLayerIds e) < 2"
    using three_selected_ids [of "layerId l0" "layerId l1" "layerId l2" "selectedLayerIds e"]
      sel idne by simp
  let ?u0 = "\<lambda>l. if layerId l = layerId l0 then l\<lparr> left := 10 \<rparr> else l"
  let ?u1 = "\<lambda>l. if layerId l = layerId l1 then l\<lparr> left := 105 \<rparr> else l"
  let ?u2 = "\<lambda>l. if layerId l = layerId l2 then l\<lparr> left := 200 \<rparr> else l"
  have run: "textLayers (applySmartSpacing (selectedLayerIds e) (textLayers e) e) =
             map ?u2 (map ?u1 (map ?u0 (textLayers e)))"
    by (simp add: applySmartSpacing_three [OF len srt] updateTextLayer_left lf)
  have pt: "?u2 (?u1 (?u0 l)) = ?h l" if l: "l \<in> set (textLayers e)" for l
  proof (cases "?P l")
    case True
    with l have "l \<in> set ?sel" by simp
    then have "l \<in> {l0, l1, l2}" by (simp only: setsel)
    then consider "l = l0" | "l = l1" | "l = l2" by blast
    then show ?thesis
    proof cases
      case 1
      then show ?thesis using sel(1) idne lf(1) by simp
    next
      case 2
      then show ?thesis using sel(2) idne lf(2) by simp
    next
      case 3
      then show ?thesis using sel(3) idne lf(3) by simp
    qed
  next
    case False
    with sel have "layerId l \<noteq> layerId l0" "layerId l \<noteq> layerId l1" "layerId l \<noteq> layerId l2"
      by auto
    with False show ?thesis by simp
  qed
  have "map ?u2 (map ?u1 (map ?u0 (textLayers e))) = map ?h (textLayers e)"
    unfolding map_map by (rule map_cong [OF refl]) (simp only: o_apply pt)
  with run show ?thesis by simp
qed


lemma smart_spacing_three_sorted:
  assumes d: "distinct (map layerId (textLayers e))"
    and s: "map left (sort_key left (filter (\<lambda>l. layerId l \<in> set (selectedLayerIds e))
                                       (textLayers e))) = [10, 50, 200]"
  shows "sort (map left (filter (\<lambda>l. layerId l \<in> set (selectedLayerIds e))
                 (textLayers (applySmartSpacing (selectedLayerIds e) (textLayers e) e)))) =
         [10, 105, 200]"
proof -
  let ?P = "\<lambda>l. layerId l \<in> set (selectedLayerIds e)"
  let ?sel = "filter ?P (textLayers e)"
  let ?h = "\<lambda>l. if ?P l
                 then l\<lparr> left := 10 + (max 100 (200 - 10) / 2) *
                                    (if left l = 10 then 0 else if left l = 50 then 1 else 2) \<rparr>
                 else l"
  let ?after = "textLayers (applySmartSpacing (selectedLayerIds e) (textLayers e) e)"
  from s obtain l0 l1 l2 where srt: "sort_key left ?sel = [l0, l1, l2]"
    and lf: "left l0 = 10" "left l1 = 50" "left l2 = 200"
    by (auto simp: map_eq_Cons_conv)
  have "set (sort_key left ?sel) = {l0, l1, l2}" by (simp add: srt)
  then have "set ?sel = {l0, l1, l2}" by simp
  then have sel: "?P l0" "?P l1" "?P l2" by auto
  have ms: "mset ?sel = mset [l0, l1, l2]"
    using mset_sort [of left ?sel] by (simp only: srt)
  have "filter (?P \<circ> ?h) (textLayers e) = ?sel"
    by (rule filter_cong [OF refl]) simp
  then have "filter ?P (map ?h (textLayers e)) = map ?h ?sel"
    by (simp only: filter_map)
  then have "map left (filter ?P ?after) = map (left \<circ> ?h) ?sel"
    by (simp only: smart_spacing_three [OF d s] map_map)
  then have "mset (map left (filter ?P ?after)) = image_mset (left \<circ> ?h) (mset ?sel)"
    by (simp only: mset_map)
  also have "\<dots> = image_mset (left \<circ> ?h) (mset [l0, l1, l2])"
    by (simp only: ms)
  also have "\<dots> = mset [10, 105, 200]"
    using sel lf by simp
  finally have "mset [10, 105, 200 :: rat] = mset (map left (filter ?P ?after))"
    by simp
  then show ?thesis by (rule properties_for_sort) simp
qed

text \<open>
  C9. With unique layer ids and exactly three selected layers, at left positions 10, 50
  and 200, smart spacing writes the left positions 10, 10 + s and 10 + 2 s with
  s = max 100 190 / 2 = 95 (the layer at 10 stays, the one at 50 goes to 105, the one
  at 200 stays at 200) and changes nothing else; in ascending order the new positions
  of the selected layers are the arithmetic progression 10, 105, 200.
\<close>

theorem smart_spacing_progression:
  assumes "distinct (map layerId (textLayers e))"
    and "map left (sort_key left (filter (\<lambda>l. layerId l \<in> set (selectedLayerIds e))
                                    (textLayers e))) = [10, 50, 200]"
  shows "textLayers (applySmartSpacing (selectedLayerIds e) (textLayers e) e) =
         map (\<lambda>l. if layerId l \<in> set (selectedLayerIds e)
                   then l\<lparr> left := 10 + (max 100 (200 - 10) / 2) *
                                      (if left l = 10 then 0 else if left l = 50 then 1 else 2) \<rparr>
                   else l)
           (textLayers e) \<and>
         sort (map left (filter (\<lambda>l. layerId l \<in> set (selectedLayerIds e))
                 (textLayers (applySmartSpacing (selectedLayerIds e) (textLayers e) e)))) =
         map (\<lambda>k. 10 + (max 100 (200 - 10) / 2) * of_nat k) [0, 1, 2]"
proof -
  have "map (\<lambda>k. 10 + (max 100 (200 - 10) / 2) * of_nat k) [0, 1, 2] = [10, 105, 200 :: rat]"
    by simp
  then show ?thesis
    using smart_spacing_three [OF assms] smart_spacing_three_sorted [OF assms] by simp
qed

theorem smart_spacing_progression_witness:
  "distinct (map layerId (textLayers three_layers)) \<and>
   map (\<lambda>l. (layerId l, left l)) (textLayers three_layers) =
     [(''a'', 50), (''b'', 200), (''c'', 10)] \<and>
   selectedLayerIds three_layers = [''a'', ''b'', ''c''] \<and>
   map left (sort_key left (filter (\<lambda>l. layerId l \<in> set (selectedLayerIds three_layers))
                              (textLayers three_layers))) = [10, 50, 200] \<and>
   map (\<lambda>l. (layerId l, left l))
     (textLayers (applySmartSpacing (selectedLayerIds three_layers) (textLayers three_layers)
                    three_layers)) =
     [(''a'', 105), (''b'', 200), (''c'', 10)]"
proof -
  have tl: "map (\<lambda>l. (layerId l, left l)) (textLayers three_layers) =
              [(''a'', 50), (''b'', 200), (''c'', 10)]"
    and sl: "selectedLayerIds three_layers = [''a'', ''b'', ''c'']"
    by (simp_all add: three_layers_def selectMultipleLayers_def addTextLayer_def spread_def
          noProperties_def editor_initialState_def)
  have d: "distinct (map layerId (textLayers three_layers))"
    by (simp add: three_layers_def selectMultipleLayers_def addTextLayer_def spread_def
          noProperties_def editor_initialState_def)
  have s: "map left (sort_key left (filter (\<lambda>l. layerId l \<in> set (selectedLayerIds three_layers))
                                      (textLayers three_layers))) = [10, 50, 200]"
    by (simp add: three_layers_def selectMultipleLayers_def addTextLayer_def spread_def
          noProperties_def editor_initialState_def)
  from smart_spacing_progression [OF d s]
  have "map (\<lambda>l. (layerId l, left l))
          (textLayers (applySmartSpacing (selectedLayerIds three_layers) (textLayers three_layers)
                         three_layers)) =
        map (\<lambda>l. (layerId l, left l))
          (map (\<lambda>l. if layerId l \<in> set (selectedLayerIds three_layers)
                   then l\<lparr> left := 10 + (max 100 (200 - 10) / 2) *
                                      (if left l = 10 then 0 else if left l = 50 then 1 else 2) \<rparr>
                   else l)
           (textLayers three_layers))"
    by simp
  also have "\<dots> = [(''a'', 105), (''b'', 200), (''c'', 10)]"
    by (simp add: three_layers_def selectMultipleLayers_def addTextLayer_def spread_def
          noProperties_def editor_initialState_def)
  finally show ?thesis using d tl sl s by simp
qed

end
